theory Spec2Isabelle
  imports Main "HOL-Library.FSet" "HOL-Library.Multiset"
begin

section \<open>Python values the matchers work on\<close>

text \<open>
  A class is known by its \<open>__name__\<close> and by the names of its proper superclasses
  (the tail of \<open>__mro__\<close>). \<open>issubclass\<close> and \<open>isinstance\<close> look a name up there, so a
  class with several bases (multiple inheritance) is an instance of each of them.
\<close>

datatype pycls = PyCls (cls_name: string) (cls_bases: "string list")

definition issubclass :: "pycls \<Rightarrow> pycls \<Rightarrow> bool" where
  "issubclass c d = (cls_name d = cls_name c \<or> cls_name d \<in> set (cls_bases c))"

definition BaseException :: pycls where
  "BaseException = PyCls ''BaseException'' [''object'']"

definition Exception :: pycls where
  "Exception = PyCls ''Exception'' [''BaseException'', ''object'']"

definition BaseExceptionGroup :: pycls where
  "BaseExceptionGroup = PyCls ''BaseExceptionGroup'' [''BaseException'', ''object'']"

definition ExceptionGroup :: pycls where
  "ExceptionGroup =
     PyCls ''ExceptionGroup'' [''BaseExceptionGroup'', ''Exception'', ''BaseException'', ''object'']"

definition ValueError :: pycls where
  "ValueError = PyCls ''ValueError'' [''Exception'', ''BaseException'', ''object'']"

definition TypeError :: pycls where
  "TypeError = PyCls ''TypeError'' [''Exception'', ''BaseException'', ''object'']"

text \<open>
  A raised exception: its class, the text \<open>getattr(exc, "message", str(exc))\<close>, its
  \<open>__notes__\<close>, and (for an exception group) its \<open>exceptions\<close>.
\<close>

datatype pyexc =
  PyExc (exc_type: pycls) (exc_message: string) (exc_notes: "string list")
        (exceptions: "pyexc list")

definition isinstance :: "pyexc \<Rightarrow> pycls \<Rightarrow> bool" where
  "isinstance e c = issubclass (exc_type e) c"

text \<open>A compiled \<open>re.Pattern\<close>: its \<open>pattern\<close> string and its \<open>flags\<close>.\<close>

record regex =
  re_pattern :: string
  re_flags :: nat

text \<open>A \<open>check\<close> callable, with the text \<open>repr\<close> gives for it.\<close>

datatype checkfn = CheckFn (check_repr: string) (check_call: "pyexc \<Rightarrow> bool")

text \<open>
  The library functions the module calls are parameters of the model:
  \<open>re.compile\<close> on a string, \<open>re.search\<close>, \<open>repr\<close> of a string, of a compiled
  pattern and of an exception, and \<open>textwrap.indent\<close>.
\<close>

record pylib =
  re_compile :: "string \<Rightarrow> regex"
  re_search :: "regex \<Rightarrow> string \<Rightarrow> bool"
  repr_str :: "string \<Rightarrow> string"
  repr_pattern :: "regex \<Rightarrow> string"
  repr_exc :: "pyexc \<Rightarrow> string"
  indent :: "string \<Rightarrow> string \<Rightarrow> string"

datatype error =
    ValueError_raised string
  | AssertionError string
  | KeyError nat
  | IndexError
  | UnboundLocalError
  | AttributeError

abbreviation NL :: string where
  "NL \<equiv> [CHR 0x0A]"

fun str_join :: "string \<Rightarrow> string list \<Rightarrow> string" where
  "str_join sep [] = []"
| "str_join sep [x] = x"
| "str_join sep (x # y # ys) = x @ sep @ str_join sep (y # ys)"

definition repr_list :: "string list \<Rightarrow> string" where
  "repr_list xs = ''['' @ str_join '', '' xs @ '']''"

section \<open>Module-level helpers\<close>

definition stringify_exception :: "pyexc \<Rightarrow> string" where
  "stringify_exception exc = str_join NL (exc_message exc # exc_notes exc)"

definition REGEX_NO_FLAGS :: "pylib \<Rightarrow> nat" where
  "REGEX_NO_FLAGS lib = re_flags (re_compile lib '''')"

datatype str_or_pattern = AsStr string | AsPattern regex

definition match_pattern :: "pylib \<Rightarrow> regex \<Rightarrow> str_or_pattern" where
  "match_pattern lib m =
     (if re_flags m = REGEX_NO_FLAGS lib then AsStr (re_pattern m) else AsPattern m)"

fun repr_str_or_pattern :: "pylib \<Rightarrow> str_or_pattern \<Rightarrow> string" where
  "repr_str_or_pattern lib (AsStr s) = repr_str lib s"
| "repr_str_or_pattern lib (AsPattern p) = repr_pattern lib p"

definition repr_callable :: "checkfn \<Rightarrow> string" where
  "repr_callable fn = check_repr fn"

definition exception_type_name :: "pylib \<Rightarrow> pycls \<Rightarrow> string" where
  "exception_type_name lib e = repr_str lib (cls_name e)"

definition check_raw_type :: "pylib \<Rightarrow> pycls option \<Rightarrow> pyexc \<Rightarrow> string option" where
  "check_raw_type lib expected_type exception =
     (case expected_type of
        None \<Rightarrow> None
      | Some t \<Rightarrow>
          if \<not> isinstance exception t then
            (let actual_type_str = exception_type_name lib (exc_type exception);
                 expected_type_str = exception_type_name lib t
             in if isinstance exception BaseExceptionGroup
                then Some (''Unexpected nested '' @ actual_type_str @ '', expected bare ''
                           @ expected_type_str)
                else Some (actual_type_str @ '' is not of type '' @ expected_type_str))
          else None)"

section \<open>AbstractMatcher\<close>

text \<open>
  The two helper methods write the attribute \<open>fail_reason\<close> of the matcher they are called
  on. They take its current value and return the new one with their verdict.
\<close>

definition check_check ::
  "checkfn option \<Rightarrow> pyexc \<Rightarrow> bool \<Rightarrow> string option \<Rightarrow> bool \<times> string option" where
  "check_check check exception suppress_repr fail_reason =
     (case check of
        None \<Rightarrow> (True, fail_reason)
      | Some fn \<Rightarrow>
          if check_call fn exception then (True, fail_reason)
          else (let check_repr = (if suppress_repr then '''' else '' '' @ repr_callable fn)
                in (False, Some (''check'' @ check_repr @ '' did not return True''))))"

definition check_match ::
  "pylib \<Rightarrow> regex option \<Rightarrow> pyexc \<Rightarrow> string option \<Rightarrow> bool \<times> string option" where
  "check_match lib match_expr e fail_reason =
     (case match_expr of
        None \<Rightarrow> (True, fail_reason)
      | Some m \<Rightarrow>
          (let stringified_exception = stringify_exception e in
           if re_search lib m stringified_exception then (True, fail_reason)
           else
             (let maybe_specify_type =
                    (if isinstance e BaseExceptionGroup
                     then '' of '' @ exception_type_name lib (exc_type e) else '''');
                  reason = ''Regex pattern '' @ repr_str_or_pattern lib (match_pattern lib m)
                           @ '' did not match '' @ repr_str lib stringified_exception
                           @ maybe_specify_type
              in if match_pattern lib m = AsStr stringified_exception
                 then (False, Some (reason @ NL @ ''Did you mean to `re.escape()` the regex?''))
                 else (False, Some reason))))"

section \<open>Matcher\<close>

record matcher =
  m_exception_type :: "pycls option"
  m_match :: "regex option"
  m_check :: "checkfn option"
  m_fail_reason :: "string option"
  m_nested :: bool

datatype match_arg = MatchStr string | MatchPattern regex

definition compile_match :: "pylib \<Rightarrow> match_arg option \<Rightarrow> regex option" where
  "compile_match lib match =
     (case match of
        None \<Rightarrow> None
      | Some (MatchStr s) \<Rightarrow> Some (re_compile lib s)
      | Some (MatchPattern p) \<Rightarrow> Some p)"

definition Matcher_init ::
  "pylib \<Rightarrow> pycls option \<Rightarrow> match_arg option \<Rightarrow> checkfn option \<Rightarrow> error + matcher" where
  "Matcher_init lib exception_type match check =
     (if exception_type = None \<and> match = None \<and> check = None then
        Inl (ValueError_raised ''You must specify at least one parameter to match on.'')
      else if exception_type \<noteq> None \<and> \<not> issubclass (the exception_type) BaseException then
        Inl (ValueError_raised (''exception_type '' @ cls_name (the exception_type)
                                @ '' must be a subclass of BaseException''))
      else Inr \<lparr> m_exception_type = exception_type,
                 m_match = compile_match lib match,
                 m_check = check,
                 m_fail_reason = None,
                 m_nested = True \<rparr>)"

definition Matcher_check_type :: "pylib \<Rightarrow> matcher \<Rightarrow> pyexc \<Rightarrow> bool \<times> matcher" where
  "Matcher_check_type lib self exception =
     (let self = self\<lparr>m_fail_reason := check_raw_type lib (m_exception_type self) exception\<rparr>
      in (m_fail_reason self = None, self))"

definition Matcher_matches :: "pylib \<Rightarrow> matcher \<Rightarrow> pyexc \<Rightarrow> bool \<times> matcher" where
  "Matcher_matches lib self exception =
     (case Matcher_check_type lib self exception of
        (ok, self) \<Rightarrow>
          if \<not> ok then (False, self)
          else
            (case check_match lib (m_match self) exception (m_fail_reason self) of
               (ok, r) \<Rightarrow>
                 if \<not> ok then (False, self\<lparr>m_fail_reason := r\<rparr>)
                 else
                   (case check_check (m_check self) exception True r of
                      (res, r') \<Rightarrow> (res, self\<lparr>m_fail_reason := r'\<rparr>))))"

definition Matcher_repr :: "pylib \<Rightarrow> matcher \<Rightarrow> string" where
  "Matcher_repr lib self =
     (let parameters =
            (case m_exception_type self of None \<Rightarrow> [] | Some t \<Rightarrow> [cls_name t])
          @ (case m_match self of None \<Rightarrow> []
             | Some m \<Rightarrow> [''match='' @ repr_str_or_pattern lib (match_pattern lib m)])
          @ (case m_check self of None \<Rightarrow> [] | Some fn \<Rightarrow> [''check='' @ check_repr fn])
      in ''Matcher('' @ str_join '', '' parameters @ '')'')"

section \<open>RaisesGroup: data and construction\<close>

datatype expected =
    EType pycls
  | EMatcher matcher
  | EGroup raisesgroup
and raisesgroup =
  RaisesGroup (expected_exceptions: "expected list")
              (allow_unwrapped: bool)
              (flatten_subgroups: bool)
              (rg_match_expr: "regex option")
              (rg_check: "checkfn option")
              (is_baseexceptiongroup: bool)
              (rg_fail_reason: "string option")
              (rg_nested: bool)

text \<open>
  What a caller may pass as an expected exception: a class (an exception class or not),
  a \<open>Matcher\<close>, a \<open>RaisesGroup\<close>, or any other object (kept as its \<open>repr\<close>).
\<close>

datatype pyarg =
    ArgType pycls
  | ArgMatcher matcher
  | ArgGroup raisesgroup
  | ArgOther string

fun set_nested :: "raisesgroup \<Rightarrow> bool \<Rightarrow> raisesgroup" where
  "set_nested (RaisesGroup es aw fl me ck isb fr ne) b = RaisesGroup es aw fl me ck isb fr b"

fun set_fail_reason :: "raisesgroup \<Rightarrow> string option \<Rightarrow> raisesgroup" where
  "set_fail_reason (RaisesGroup es aw fl me ck isb fr ne) r = RaisesGroup es aw fl me ck isb r ne"

fun is_RaisesGroup_arg :: "pyarg \<Rightarrow> bool" where
  "is_RaisesGroup_arg (ArgGroup g) = True"
| "is_RaisesGroup_arg a = False"

fun is_RaisesGroup :: "expected \<Rightarrow> bool" where
  "is_RaisesGroup (EGroup g) = True"
| "is_RaisesGroup e = False"

fun repr_arg :: "pyarg \<Rightarrow> string" where
  "repr_arg (ArgType c) = ''<class '' @ [CHR 0x27] @ cls_name c @ [CHR 0x27] @ ''>''"
| "repr_arg (ArgOther r) = r"
| "repr_arg a = []"

text \<open>
  The loop of \<open>__init__\<close> that verifies \<open>expected_exceptions\<close> and accumulates
  \<open>is_baseexceptiongroup\<close>. A nested \<open>RaisesGroup\<close> is stored with \<open>_nested\<close> set.
\<close>

fun verify_expected ::
  "bool \<Rightarrow> pyarg list \<Rightarrow> bool \<Rightarrow> error + (expected list \<times> bool)" where
  "verify_expected flatten [] isb = Inr ([], isb)"
| "verify_expected flatten (ArgGroup g # rest) isb =
     (if flatten then
        Inl (ValueError_raised
          (''You cannot specify a nested structure inside a RaisesGroup with''
           @ '' `flatten_subgroups=True`. The parameter will flatten subgroups''
           @ '' in the raised exceptiongroup before matching, which would never''
           @ '' match a nested structure.''))
      else (case verify_expected flatten rest (isb \<or> is_baseexceptiongroup g) of
              Inl err \<Rightarrow> Inl err
            | Inr (es, isb') \<Rightarrow> Inr (EGroup (set_nested g True) # es, isb')))"
| "verify_expected flatten (ArgMatcher m # rest) isb =
     (case verify_expected flatten rest
             (case m_exception_type m of
                None \<Rightarrow> isb
              | Some t \<Rightarrow> isb \<or> \<not> issubclass t Exception) of
        Inl err \<Rightarrow> Inl err
      | Inr (es, isb') \<Rightarrow> Inr (EMatcher m # es, isb'))"
| "verify_expected flatten (ArgType c # rest) isb =
     (if issubclass c BaseException then
        (case verify_expected flatten rest (isb \<or> \<not> issubclass c Exception) of
           Inl err \<Rightarrow> Inl err
         | Inr (es, isb') \<Rightarrow> Inr (EType c # es, isb'))
      else Inl (ValueError_raised (''Invalid argument '' @ [CHR 0x22] @ repr_arg (ArgType c)
                  @ [CHR 0x22] @ '' must be exception type, Matcher, or RaisesGroup.'')))"
| "verify_expected flatten (ArgOther r # rest) isb =
     Inl (ValueError_raised (''Invalid argument '' @ [CHR 0x22] @ repr_arg (ArgOther r)
            @ [CHR 0x22] @ '' must be exception type, Matcher, or RaisesGroup.''))"

definition RaisesGroup_init ::
  "pylib \<Rightarrow> pyarg \<Rightarrow> pyarg list \<Rightarrow> bool \<Rightarrow> bool \<Rightarrow> match_arg option \<Rightarrow> checkfn option
     \<Rightarrow> error + raisesgroup" where
  "RaisesGroup_init lib exception other_exceptions allow_unwrapped_arg flatten_subgroups_arg
       match check =
     (if allow_unwrapped_arg \<and> other_exceptions \<noteq> [] then
        Inl (ValueError_raised
          (''You cannot specify multiple exceptions with `allow_unwrapped=True.`''
           @ '' If you want to match one of multiple possible exceptions you should''
           @ '' use a `Matcher`.''
           @ '' E.g. `Matcher(check=lambda e: isinstance(e, (...)))`''))
      else if allow_unwrapped_arg \<and> is_RaisesGroup_arg exception then
        Inl (ValueError_raised
          (''`allow_unwrapped=True` has no effect when expecting a `RaisesGroup`.''
           @ '' You might want it in the expected `RaisesGroup`, or''
           @ '' `flatten_subgroups=True` if you don'' @ [CHR 0x27]
           @ ''t care about the structure.''))
      else if allow_unwrapped_arg \<and> (match \<noteq> None \<or> check \<noteq> None) then
        Inl (ValueError_raised
          (''`allow_unwrapped=True` bypasses the `match` and `check` parameters''
           @ '' if the exception is unwrapped. If you intended to match/check the''
           @ '' exception you should use a `Matcher` object. If you want to match/check''
           @ '' the exceptiongroup when the exception *is* wrapped you need to''
           @ '' do e.g. `if isinstance(exc.value, ExceptionGroup):''
           @ '' assert RaisesGroup(...).matches(exc.value)` afterwards.''))
      else
        (case verify_expected flatten_subgroups_arg (exception # other_exceptions) False of
           Inl err \<Rightarrow> Inl err
         | Inr (es, isb) \<Rightarrow>
             Inr (RaisesGroup es allow_unwrapped_arg flatten_subgroups_arg
                    (compile_match lib match) check isb None False)))"

section \<open>RaisesGroup: rendering\<close>

fun RaisesGroup_repr :: "pylib \<Rightarrow> raisesgroup \<Rightarrow> string"
  and req_repr :: "pylib \<Rightarrow> expected \<Rightarrow> string" where
  "RaisesGroup_repr lib (RaisesGroup es aw fl me ck isb fr ne) =
     (let reqs = map (req_repr lib) es
            @ (if aw then [''allow_unwrapped=True''] else [])
            @ (if fl then [''flatten_subgroups=True''] else [])
            @ (case me of None \<Rightarrow> []
               | Some m \<Rightarrow> [''match='' @ repr_str_or_pattern lib (match_pattern lib m)])
            @ (case ck of None \<Rightarrow> [] | Some fn \<Rightarrow> [''check='' @ check_repr fn])
      in ''RaisesGroup('' @ str_join '', '' reqs @ '')'')"
| "req_repr lib (EType t) = cls_name t"
| "req_repr lib (EMatcher m) = Matcher_repr lib m"
| "req_repr lib (EGroup g) = RaisesGroup_repr lib g"

fun repr_expected :: "pylib \<Rightarrow> expected \<Rightarrow> string" where
  "repr_expected lib (EType t) = exception_type_name lib t"
| "repr_expected lib e = req_repr lib e"

fun expected_type :: "pylib \<Rightarrow> raisesgroup \<Rightarrow> string"
  and subexc_type :: "pylib \<Rightarrow> expected \<Rightarrow> string" where
  "expected_type lib (RaisesGroup es aw fl me ck isb fr ne) =
     (let subexcs = map (subexc_type lib) es;
          group_type = (if isb then ''Base'' else [])
      in group_type @ ''ExceptionGroup('' @ str_join '', '' subexcs @ '')'')"
| "subexc_type lib (EMatcher m) = Matcher_repr lib m"
| "subexc_type lib (EGroup g) = expected_type lib g"
| "subexc_type lib (EType t) = cls_name t"

fun unroll_exceptions :: "pyexc list \<Rightarrow> pyexc list" where
  "unroll_exceptions [] = []"
| "unroll_exceptions (PyExc c msg notes sub # rest) =
     (if issubclass c BaseExceptionGroup then unroll_exceptions sub
      else [PyExc c msg notes sub])
     @ unroll_exceptions rest"

section \<open>ResultHolder\<close>

text \<open>
  The table \<open>results[actual][expected]\<close>. A cell is \<open>NotChecked\<close>, or holds the result of
  \<open>_check_expected\<close>: \<open>None\<close> for a match, a string for the reason of the failure.
  All indices the module uses come from \<open>range\<close> and \<open>enumerate\<close> over the two
  sequences the table was built from.
\<close>

datatype cell = NotChecked | Result "string option"

definition ResultHolder_init :: "expected list \<Rightarrow> pyexc list \<Rightarrow> cell list list" where
  "ResultHolder_init expected_excs actual_excs =
     map (\<lambda>_. map (\<lambda>_. NotChecked) expected_excs) actual_excs"

definition set_result :: "cell list list \<Rightarrow> nat \<Rightarrow> nat \<Rightarrow> string option \<Rightarrow> cell list list" where
  "set_result results expected actual result =
     results[actual := (results ! actual)[expected := Result result]]"

definition get_result :: "cell list list \<Rightarrow> nat \<Rightarrow> nat \<Rightarrow> error + string option" where
  "get_result results expected actual =
     (case results ! actual ! expected of
        NotChecked \<Rightarrow> Inl (AssertionError [])
      | Result r \<Rightarrow> Inr r)"

definition has_result :: "cell list list \<Rightarrow> nat \<Rightarrow> nat \<Rightarrow> bool" where
  "has_result results expected actual = (results ! actual ! expected \<noteq> NotChecked)"

text \<open>The inner loops of \<open>no_match_for_expected\<close> and \<open>no_match_for_actual\<close>.\<close>

fun no_match_in_column :: "cell list list \<Rightarrow> nat \<Rightarrow> error + bool" where
  "no_match_in_column [] i = Inr True"
| "no_match_in_column (actual_results # rest) i =
     (case actual_results ! i of
        NotChecked \<Rightarrow> Inl (AssertionError [])
      | Result None \<Rightarrow> Inr False
      | Result (Some r) \<Rightarrow> no_match_in_column rest i)"

fun no_match_in_row :: "cell list \<Rightarrow> error + bool" where
  "no_match_in_row [] = Inr True"
| "no_match_in_row (c # rest) =
     (case c of
        NotChecked \<Rightarrow> Inl (AssertionError [])
      | Result None \<Rightarrow> Inr False
      | Result (Some r) \<Rightarrow> no_match_in_row rest)"

fun no_match_for_expected :: "cell list list \<Rightarrow> nat list \<Rightarrow> error + bool" where
  "no_match_for_expected results [] = Inr True"
| "no_match_for_expected results (i # rest) =
     (case no_match_in_column results i of
        Inl err \<Rightarrow> Inl err
      | Inr ok \<Rightarrow> if ok then no_match_for_expected results rest else Inr False)"

fun no_match_for_actual :: "cell list list \<Rightarrow> nat list \<Rightarrow> error + bool" where
  "no_match_for_actual results [] = Inr True"
| "no_match_for_actual results (i # rest) =
     (case no_match_in_row (results ! i) of
        Inl err \<Rightarrow> Inl err
      | Inr ok \<Rightarrow> if ok then no_match_for_actual results rest else Inr False)"

section \<open>possible_match\<close>

text \<open>
  \<open>for x in xs: if f(x): return True\<close> followed by \<open>return False\<close>, where \<open>f\<close> may raise.
\<close>

fun first_true :: "('a \<Rightarrow> error + bool) \<Rightarrow> 'a list \<Rightarrow> error + bool" where
  "first_true f [] = Inr False"
| "first_true f (x # xs) =
     (case f x of
        Inl err \<Rightarrow> Inl err
      | Inr ok \<Rightarrow> if ok then Inr True else first_true f xs)"

lemma first_true_cong [fundef_cong]:
  "xs = ys \<Longrightarrow> (\<And>x. x \<in> set ys \<Longrightarrow> f x = g x) \<Longrightarrow> first_true f xs = first_true g ys"
  by (induction ys arbitrary: xs) (auto split: sum.splits)

text \<open>
  \<open>used\<close> is the set of columns taken by the rows above \<open>curr_row\<close>. Reading a row past
  the end of the table raises \<open>IndexError\<close>.
\<close>

function possible_match :: "cell list list \<Rightarrow> nat fset \<Rightarrow> error + bool" where
  "possible_match results used =
     (let curr_row = fcard used in
      if curr_row = length results then Inr True
      else if length results < curr_row then Inl IndexError
      else first_true
             (\<lambda>(i, val).
                if val = Result None \<and> i |\<notin>| used
                then possible_match results (finsert i used)
                else Inr False)
             (enumerate 0 (results ! curr_row)))"
  by pat_completeness auto
termination
  by (relation "measure (\<lambda>(results, used). length results - fcard used)")
     (auto simp: fcard_finsert_disjoint)

declare possible_match.simps [simp del]

section \<open>RaisesGroup._check_exceptions\<close>

text \<open>
  The local variables of the pairing loop: the result table, \<open>remaining_actual\<close>,
  \<open>failed_expected\<close>, the dict \<open>matches\<close> (an association list in insertion order: every
  key is inserted once) and \<open>res\<close> (unbound until the first check).
\<close>

record pairing =
  st_results :: "cell list list"
  st_remaining_actual :: "nat list"
  st_failed_expected :: "nat list"
  st_matches :: "(nat \<times> nat) list"
  st_res :: "string option option"

text \<open>
  The static method \<open>_check_expected\<close> calls \<open>matches\<close> of a nested \<open>RaisesGroup\<close>, which
  calls \<open>_check_exceptions\<close> again. The methods below take it as the parameter \<open>chk\<close>;
  \<open>check_expected\<close> further down closes the recursion.

  The inner \<open>for i_rem in remaining_actual\<close> with its \<open>else\<close> clause: \<open>todo\<close> is the part
  of \<open>remaining_actual\<close> still to visit (the list is changed only right before
  \<open>break\<close>).
\<close>

fun scan_remaining ::
  "(expected \<Rightarrow> pyexc \<Rightarrow> error + string option) \<Rightarrow> expected \<Rightarrow> pyexc list \<Rightarrow> nat
     \<Rightarrow> nat list \<Rightarrow> pairing \<Rightarrow> error + pairing" where
  "scan_remaining chk expected actual_exceptions i_exp [] st =
     Inr (st\<lparr>st_failed_expected := st_failed_expected st @ [i_exp]\<rparr>)"
| "scan_remaining chk expected actual_exceptions i_exp (i_rem # todo) st =
     (case chk expected (actual_exceptions ! i_rem) of
        Inl err \<Rightarrow> Inl err
      | Inr res \<Rightarrow>
          (let st = st\<lparr>st_results := set_result (st_results st) i_exp i_rem res,
                       st_res := Some res\<rparr>
           in if res = None then
                Inr (st\<lparr>st_remaining_actual := remove1 i_rem (st_remaining_actual st),
                        st_matches := st_matches st @ [(i_exp, i_rem)]\<rparr>)
              else scan_remaining chk expected actual_exceptions i_exp todo st))"

text \<open>The outer \<open>for i_exp, expected in enumerate(self.expected_exceptions)\<close>.\<close>

fun pair_expected ::
  "(expected \<Rightarrow> pyexc \<Rightarrow> error + string option) \<Rightarrow> pyexc list \<Rightarrow> (nat \<times> expected) list
     \<Rightarrow> pairing \<Rightarrow> error + pairing" where
  "pair_expected chk actual_exceptions [] st = Inr st"
| "pair_expected chk actual_exceptions ((i_exp, expected) # rest) st =
     (case scan_remaining chk expected actual_exceptions i_exp (st_remaining_actual st) st of
        Inl err \<Rightarrow> Inl err
      | Inr st' \<Rightarrow> pair_expected chk actual_exceptions rest st')"

definition initial_pairing :: "expected list \<Rightarrow> pyexc list \<Rightarrow> pairing" where
  "initial_pairing expected_excs actual_exceptions =
     \<lparr> st_results = ResultHolder_init expected_excs actual_exceptions,
       st_remaining_actual = [0..<length actual_exceptions],
       st_failed_expected = [],
       st_matches = [],
       st_res = None \<rparr>"

text \<open>The exhaustive second pass that fills every cell not yet checked.\<close>

fun fill_row ::
  "(expected \<Rightarrow> pyexc \<Rightarrow> error + string option) \<Rightarrow> expected \<Rightarrow> nat \<Rightarrow> (nat \<times> pyexc) list
     \<Rightarrow> cell list list \<Rightarrow> error + cell list list" where
  "fill_row chk expected i_exp [] results = Inr results"
| "fill_row chk expected i_exp ((i_actual, actual) # rest) results =
     (if has_result results i_exp i_actual then fill_row chk expected i_exp rest results
      else (case chk expected actual of
              Inl err \<Rightarrow> Inl err
            | Inr r \<Rightarrow> fill_row chk expected i_exp rest (set_result results i_exp i_actual r)))"

fun fill_all ::
  "(expected \<Rightarrow> pyexc \<Rightarrow> error + string option) \<Rightarrow> pyexc list \<Rightarrow> (nat \<times> expected) list
     \<Rightarrow> cell list list \<Rightarrow> error + cell list list" where
  "fill_all chk actual_exceptions [] results = Inr results"
| "fill_all chk actual_exceptions ((i_exp, expected) # rest) results =
     (case fill_row chk expected i_exp (enumerate 0 actual_exceptions) results of
        Inl err \<Rightarrow> Inl err
      | Inr results' \<Rightarrow> fill_all chk actual_exceptions rest results')"

subsection \<open>The failure report\<close>

function str_nat :: "nat \<Rightarrow> string" where
  "str_nat n =
     (if n < 10 then [''0123456789'' ! n]
      else str_nat (n div 10) @ [''0123456789'' ! (n mod 10)])"
  by pat_completeness auto
termination
  by (relation "measure id") auto

declare str_nat.simps [simp del]

fun str_opt :: "string option \<Rightarrow> string" where
  "str_opt None = ''None''"
| "str_opt (Some s) = s"

definition indent_1 :: string where
  "indent_1 = replicate 2 CHR '' ''"

definition indent_2 :: string where
  "indent_2 = replicate 4 CHR '' ''"

text \<open>
  The loop over \<open>enumerate(actual_exceptions)\<close> inside \<open>for i_failed in failed_expected\<close>.
  It reads the table at \<open>i_exp\<close>, the variable of the enumerate loops above it, which
  still holds the index of the last expected exception; \<open>i_failed\<close> is not used here.
\<close>

fun report_would_match ::
  "pylib \<Rightarrow> expected list \<Rightarrow> cell list list \<Rightarrow> (nat \<times> nat) list \<Rightarrow> nat
     \<Rightarrow> (nat \<times> pyexc) list \<Rightarrow> string \<Rightarrow> error + string" where
  "report_would_match lib expected_excs results rev_matches i_exp [] s = Inr s"
| "report_would_match lib expected_excs results rev_matches i_exp ((i_actual, actual) # rest) s =
     (case get_result results i_exp i_actual of
        Inl err \<Rightarrow> Inl err
      | Inr (Some r) \<Rightarrow>
          report_would_match lib expected_excs results rev_matches i_exp rest s
      | Inr None \<Rightarrow>
          (case map_of rev_matches i_actual of
             None \<Rightarrow> Inl (KeyError i_actual)
           | Some k \<Rightarrow>
               report_would_match lib expected_excs results rev_matches i_exp rest
                 (s @ NL @ indent_2 @ ''It matches '' @ repr_exc lib actual
                    @ '' which was paired with '' @ repr_expected lib (expected_excs ! k))))"

fun report_failed ::
  "pylib \<Rightarrow> expected list \<Rightarrow> pyexc list \<Rightarrow> cell list list \<Rightarrow> (nat \<times> nat) list \<Rightarrow> nat
     \<Rightarrow> nat list \<Rightarrow> string \<Rightarrow> error + string" where
  "report_failed lib expected_excs actual_exceptions results rev_matches i_exp [] s = Inr s"
| "report_failed lib expected_excs actual_exceptions results rev_matches i_exp (i_failed # rest) s =
     (case report_would_match lib expected_excs results rev_matches i_exp
             (enumerate 0 actual_exceptions)
             (s @ NL @ indent_1 @ repr_expected lib (expected_excs ! i_failed)) of
        Inl err \<Rightarrow> Inl err
      | Inr s' \<Rightarrow>
          report_failed lib expected_excs actual_exceptions results rev_matches i_exp rest s')"

text \<open>
  The loop over \<open>enumerate(self.expected_exceptions)\<close> inside
  \<open>for i_actual in remaining_actual\<close>. \<open>res[0]\<close> raises \<open>IndexError\<close> on an empty string.
\<close>

fun report_reasons ::
  "pylib \<Rightarrow> pyexc list \<Rightarrow> cell list list \<Rightarrow> nat list \<Rightarrow> (nat \<times> nat) list \<Rightarrow> nat
     \<Rightarrow> (nat \<times> expected) list \<Rightarrow> string \<Rightarrow> error + string" where
  "report_reasons lib actual_exceptions results failed matches i_actual [] s = Inr s"
| "report_reasons lib actual_exceptions results failed matches i_actual
       ((i_exp, expected) # rest) s =
     (case get_result results i_exp i_actual of
        Inl err \<Rightarrow> Inl err
      | Inr res \<Rightarrow>
          (case (if i_exp \<in> set failed then
                   (case res of
                      None \<Rightarrow> Inl (AssertionError [])
                    | Some r \<Rightarrow>
                        if r = [] then Inl IndexError
                        else Inr ((if hd r \<noteq> CHR 0x0A then s @ NL else s)
                                  @ indent lib r indent_2))
                 else Inr s) of
             Inl err \<Rightarrow> Inl err
           | Inr s1 \<Rightarrow>
               (case (if res = None then
                        (case map_of matches i_exp of
                           None \<Rightarrow> Inl (KeyError i_exp)
                         | Some j \<Rightarrow>
                             Inr (s1 @ NL @ indent_2 @ ''It matches ''
                                  @ repr_expected lib expected @ '' which was paired with ''
                                  @ repr_exc lib (actual_exceptions ! j)))
                      else Inr s1) of
                  Inl err \<Rightarrow> Inl err
                | Inr s2 \<Rightarrow>
                    report_reasons lib actual_exceptions results failed matches i_actual
                      rest s2)))"

fun report_remaining ::
  "pylib \<Rightarrow> expected list \<Rightarrow> pyexc list \<Rightarrow> cell list list \<Rightarrow> nat list \<Rightarrow> (nat \<times> nat) list
     \<Rightarrow> nat list \<Rightarrow> string \<Rightarrow> error + string" where
  "report_remaining lib expected_excs actual_exceptions results failed matches [] s = Inr s"
| "report_remaining lib expected_excs actual_exceptions results failed matches
       (i_actual # rest) s =
     (case report_reasons lib actual_exceptions results failed matches i_actual
             (enumerate 0 expected_excs)
             (s @ NL @ indent_1 @ repr_exc lib (actual_exceptions ! i_actual) @ '':'') of
        Inl err \<Rightarrow> Inl err
      | Inr s' \<Rightarrow>
          report_remaining lib expected_excs actual_exceptions results failed matches rest s')"

text \<open>
  The general case: expected and raised exceptions are both left without a match. The dict
  comprehension \<open>rev_matches\<close> keeps the last entry of a repeated key.
\<close>

definition general_report ::
  "pylib \<Rightarrow> raisesgroup \<Rightarrow> pyexc list \<Rightarrow> cell list list \<Rightarrow> nat list \<Rightarrow> nat list
     \<Rightarrow> (nat \<times> nat) list \<Rightarrow> string \<Rightarrow> error + (bool \<times> string option)" where
  "general_report lib self actual_exceptions results remaining_actual failed_expected matches
       successful_str =
     (let es = expected_exceptions self;
          s0 = (if matches \<noteq> [] then NL @ successful_str else []);
          s1 = (if remaining_actual = [] then s0 @ NL @ ''Too few exceptions raised!''
                else if failed_expected = [] then s0 @ NL @ ''Unexpected exception(s)!''
                else s0);
          s2 = (if failed_expected \<noteq> []
                then s1 @ NL @ ''The following expected exceptions did not find a match:''
                else s1);
          rev_matches = rev (map (\<lambda>(k, v). (v, k)) matches);
          i_exp = length es - 1
      in case report_failed lib es actual_exceptions results rev_matches i_exp
                failed_expected s2 of
           Inl err \<Rightarrow> Inl err
         | Inr s3 \<Rightarrow>
             (let s4 = (if remaining_actual \<noteq> []
                        then s3 @ NL @ ''The following raised exceptions did not find a match''
                        else s3)
              in case report_remaining lib es actual_exceptions results failed_expected
                        matches remaining_actual s4 of
                   Inl err \<Rightarrow> Inl err
                 | Inr s5 \<Rightarrow>
                     (case (if length es = length actual_exceptions
                            then possible_match results {||} else Inr False) of
                        Inl err \<Rightarrow> Inl err
                      | Inr possible \<Rightarrow>
                          Inr (False,
                               Some (if possible
                                     then s5 @ NL
                                       @ ''There exist a possible match when attempting an''
                                       @ '' exhaustive check, but RaisesGroup uses a greedy''
                                       @ '' algorithm. Please make your expected exceptions''
                                       @ '' more stringent with `Matcher` etc so the greedy''
                                       @ '' algorithm can function.''
                                     else s5)))))"

text \<open>Everything after the exhaustive pass: the three simplified messages, then the report.\<close>

definition failure_report ::
  "pylib \<Rightarrow> raisesgroup \<Rightarrow> pyexc list \<Rightarrow> cell list list \<Rightarrow> nat list \<Rightarrow> nat list
     \<Rightarrow> (nat \<times> nat) list \<Rightarrow> error + (bool \<times> string option)" where
  "failure_report lib self actual_exceptions results remaining_actual failed_expected matches =
     (let es = expected_exceptions self;
          successful_str =
            (if matches \<noteq> []
             then str_nat (length matches) @ '' matched exception''
                  @ (if length matches > 1 then ''s'' else []) @ ''. ''
             else [])
      in case (if failed_expected = [] then no_match_for_actual results remaining_actual
               else Inr False) of
           Inl err \<Rightarrow> Inl err
         | Inr unexpected \<Rightarrow>
             if unexpected then
               Inr (False,
                    Some (successful_str @ ''Unexpected exception(s): ''
                          @ repr_list (map (\<lambda>i. repr_exc lib (actual_exceptions ! i))
                                         remaining_actual)))
             else
               (case (if remaining_actual = []
                      then no_match_for_expected results failed_expected else Inr False) of
                  Inl err \<Rightarrow> Inl err
                | Inr too_few \<Rightarrow>
                    if too_few then
                      Inr (False,
                           Some (successful_str
                                 @ ''Too few exceptions raised, found no match for: [''
                                 @ str_join '', ''
                                     (map (\<lambda>i. repr_expected lib (es ! i)) failed_expected)
                                 @ '']''))
                    else
                      (case (if 1 = length remaining_actual
                                \<and> length remaining_actual = length failed_expected
                             then (case no_match_for_actual results remaining_actual of
                                     Inl err \<Rightarrow> Inl err
                                   | Inr ok \<Rightarrow>
                                       if ok
                                       then no_match_for_expected results failed_expected
                                       else Inr False)
                             else Inr False) of
                         Inl err \<Rightarrow> Inl err
                       | Inr single_pair \<Rightarrow>
                           if single_pair then
                             (case get_result results (hd failed_expected)
                                     (hd remaining_actual) of
                                Inl err \<Rightarrow> Inl err
                              | Inr r \<Rightarrow> Inr (False, Some (successful_str @ str_opt r)))
                           else general_report lib self actual_exceptions results
                                  remaining_actual failed_expected matches successful_str)))"

text \<open>
  \<open>_check_exceptions\<close>. The argument \<open>fail_reason\<close> is the value of \<open>self.fail_reason\<close> at
  the call; the result carries the verdict and the value of \<open>self.fail_reason\<close> at return.
\<close>

definition check_exceptions_with ::
  "(expected \<Rightarrow> pyexc \<Rightarrow> error + string option) \<Rightarrow> pylib \<Rightarrow> raisesgroup \<Rightarrow> pyexc
     \<Rightarrow> pyexc list \<Rightarrow> string option \<Rightarrow> error + (bool \<times> string option)" where
  "check_exceptions_with chk lib self exc_val actual_exceptions fail_reason =
     (let es = expected_exceptions self in
      case pair_expected chk actual_exceptions (enumerate 0 es)
             (initial_pairing es actual_exceptions) of
        Inl err \<Rightarrow> Inl err
      | Inr st \<Rightarrow>
          if st_remaining_actual st = [] \<and> st_failed_expected st = [] then
            Inr (True, fail_reason)
          else if 1 = length actual_exceptions \<and> length actual_exceptions = length es then
            (if st_matches st \<noteq> [] then Inl (AssertionError [])
             else (case st_res st of
                     None \<Rightarrow> Inl UnboundLocalError
                   | Some res \<Rightarrow> Inr (False, res)))
          else
            (case fill_all chk actual_exceptions (enumerate 0 es) (st_results st) of
               Inl err \<Rightarrow> Inl err
             | Inr results \<Rightarrow>
                 failure_report lib self actual_exceptions results (st_remaining_actual st)
                   (st_failed_expected st) (st_matches st)))"

section \<open>RaisesGroup.matches\<close>

definition matches_with ::
  "(expected \<Rightarrow> pyexc \<Rightarrow> error + string option) \<Rightarrow> pylib \<Rightarrow> raisesgroup \<Rightarrow> pyexc option
     \<Rightarrow> error + (bool \<times> string option)" where
  "matches_with chk lib self exc_val_opt =
     (let es = expected_exceptions self in
      case exc_val_opt of
        None \<Rightarrow> Inr (False, Some ''exception is None'')
      | Some exc_val \<Rightarrow>
          if \<not> isinstance exc_val BaseExceptionGroup then
            (let not_group_msg =
                   repr_str lib (cls_name (exc_type exc_val)) @ '' is not an exception group''
             in if length es > 1 then Inr (False, Some not_group_msg)
                else
                  (case es of
                     [] \<Rightarrow> Inl IndexError
                   | e0 # _ \<Rightarrow>
                       (case chk e0 exc_val of
                          Inl err \<Rightarrow> Inl err
                        | Inr res \<Rightarrow>
                            if res = None \<and> allow_unwrapped self then Inr (True, None)
                            else if res = None then
                              Inr (False,
                                   Some (not_group_msg
                                         @ '', but would match with `allow_unwrapped=True`''))
                            else if allow_unwrapped self then Inr (False, res)
                            else Inr (False, Some not_group_msg))))
          else
            (let actual_exceptions =
                   (if flatten_subgroups self then unroll_exceptions (exceptions exc_val)
                    else exceptions exc_val)
             in case check_match lib (rg_match_expr self) exc_val None of
                  (matched, old_reason) \<Rightarrow>
                    if \<not> matched then
                      (case (actual_exceptions, es) of
                         ([actual], [EType expected]) \<Rightarrow>
                           if isinstance actual expected
                              \<and> fst (check_match lib (rg_match_expr self) actual old_reason)
                           then
                             (case (rg_match_expr self, old_reason) of
                                (Some m, Some reason) \<Rightarrow>
                                  Inr (False,
                                       Some (reason @ '', but matched the expected ''
                                             @ repr_expected lib (EType expected)
                                             @ ''. You might want RaisesGroup(Matcher(''
                                             @ cls_name expected @ '', match=''
                                             @ repr_str_or_pattern lib (match_pattern lib m)
                                             @ ''))''))
                              | _ \<Rightarrow> Inl (AssertionError []))
                           else Inr (False, old_reason)
                       | _ \<Rightarrow> Inr (False, old_reason))
                    else
                      (case check_exceptions_with chk lib self exc_val actual_exceptions
                              old_reason of
                         Inl err \<Rightarrow> Inl err
                       | Inr (paired, reason_opt) \<Rightarrow>
                           if \<not> paired then
                             (case reason_opt of
                                None \<Rightarrow> Inl (AssertionError [])
                              | Some reason \<Rightarrow>
                                  if \<not> flatten_subgroups self
                                     \<and> \<not> list_ex is_RaisesGroup es
                                     \<and> list_ex (\<lambda>e. isinstance e BaseExceptionGroup)
                                          actual_exceptions
                                  then
                                    (case check_exceptions_with chk lib self exc_val
                                            (unroll_exceptions (exceptions exc_val))
                                            reason_opt of
                                       Inl err \<Rightarrow> Inl err
                                     | Inr (flat_paired, _) \<Rightarrow>
                                         if flat_paired then
                                           Inr (False,
                                                Some (reason @ NL
                                                  @ ''Did you mean to use''
                                                  @ '' `flatten_subgroups=True`?''))
                                         else Inr (False, Some reason))
                                  else Inr (False, Some reason))
                           else
                             Inr (check_check (rg_check self) exc_val (rg_nested self)
                                    reason_opt))))"

section \<open>RaisesGroup._check_expected\<close>

text \<open>\<open>chk\<close> is only ever applied to members of \<open>self.expected_exceptions\<close>.\<close>

lemma scan_remaining_cong:
  "(\<And>a. chk e a = chk' e a) \<Longrightarrow>
   scan_remaining chk e acts i todo st = scan_remaining chk' e acts i todo st"
  by (induction todo arbitrary: st) (auto split: sum.splits simp: Let_def)

lemma pair_expected_cong:
  "(\<And>e a. e \<in> snd ` set ies \<Longrightarrow> chk e a = chk' e a) \<Longrightarrow>
   pair_expected chk acts ies st = pair_expected chk' acts ies st"
proof (induction ies arbitrary: st)
  case Nil
  show ?case by simp
next
  case (Cons ie ies)
  obtain i e where ie: "ie = (i, e)" by (cases ie)
  have "scan_remaining chk e acts i (st_remaining_actual st) st
        = scan_remaining chk' e acts i (st_remaining_actual st) st"
    by (rule scan_remaining_cong) (simp add: Cons.prems ie)
  moreover have "\<And>st'. pair_expected chk acts ies st' = pair_expected chk' acts ies st'"
    by (rule Cons.IH) (simp add: Cons.prems)
  ultimately show ?case by (simp add: ie split: sum.splits)
qed

lemma fill_row_cong:
  "(\<And>a. chk e a = chk' e a) \<Longrightarrow>
   fill_row chk e i ias results = fill_row chk' e i ias results"
  by (induction ias arbitrary: results) (auto split: sum.splits)

lemma fill_all_cong:
  "(\<And>e a. e \<in> snd ` set ies \<Longrightarrow> chk e a = chk' e a) \<Longrightarrow>
   fill_all chk acts ies results = fill_all chk' acts ies results"
proof (induction ies arbitrary: results)
  case Nil
  show ?case by simp
next
  case (Cons ie ies)
  obtain i e where ie: "ie = (i, e)" by (cases ie)
  have "fill_row chk e i (enumerate 0 acts) results
        = fill_row chk' e i (enumerate 0 acts) results"
    by (rule fill_row_cong) (simp add: Cons.prems ie)
  moreover have "\<And>r. fill_all chk acts ies r = fill_all chk' acts ies r"
    by (rule Cons.IH) (simp add: Cons.prems)
  ultimately show ?case by (simp add: ie split: sum.splits)
qed

lemma snd_set_enumerate: "snd ` set (enumerate n xs) = set xs"
  by (metis list.set_map map_snd_enumerate)

lemma check_exceptions_with_cong:
  assumes "\<And>e a. e \<in> set (expected_exceptions self) \<Longrightarrow> chk e a = chk' e a"
  shows "check_exceptions_with chk lib self exc_val acts fr
         = check_exceptions_with chk' lib self exc_val acts fr"
proof -
  have p: "\<And>st. pair_expected chk acts (enumerate 0 (expected_exceptions self)) st
                = pair_expected chk' acts (enumerate 0 (expected_exceptions self)) st"
    by (rule pair_expected_cong) (simp add: snd_set_enumerate assms)
  have f: "\<And>r. fill_all chk acts (enumerate 0 (expected_exceptions self)) r
               = fill_all chk' acts (enumerate 0 (expected_exceptions self)) r"
    by (rule fill_all_cong) (simp add: snd_set_enumerate assms)
  show ?thesis
    unfolding check_exceptions_with_def Let_def p f ..
qed

lemma matches_with_cong [fundef_cong]:
  assumes "self = self'" "lib = lib'" "x = x'"
    and "\<And>e a. e \<in> set (expected_exceptions self') \<Longrightarrow> chk e a = chk' e a"
  shows "matches_with chk lib self x = matches_with chk' lib' self' x'"
proof -
  have c: "\<And>ev acts fr. check_exceptions_with chk lib' self' ev acts fr
                        = check_exceptions_with chk' lib' self' ev acts fr"
    by (rule check_exceptions_with_cong) (rule assms(4))
  show ?thesis
  proof (cases "expected_exceptions self'")
    case Nil
    show ?thesis
      unfolding assms(1-3) matches_with_def Let_def c Nil list.case ..
  next
    case (Cons e0 rest)
    have h: "chk e0 = chk' e0"
      using assms(4) Cons by auto
    show ?thesis
      unfolding assms(1-3) matches_with_def Let_def c Cons list.case h ..
  qed
qed

lemma size_expected_member:
  "e \<in> set (expected_exceptions g) \<Longrightarrow> size e < size g"
  by (cases g) (auto dest!: size_list_estimation' [where f = size and y = "size e"]
                     simp: less_Suc_eq_le)

definition startswith :: "string \<Rightarrow> string \<Rightarrow> bool" where
  "startswith s p = (take (length p) s = p)"

text \<open>The end of \<open>_check_expected\<close>, from \<open>assert expected_type.fail_reason is not None\<close>.\<close>

definition describe_failure :: "pylib \<Rightarrow> string \<Rightarrow> string option \<Rightarrow> error + string option" where
  "describe_failure lib expected_repr fail_reason =
     (case fail_reason of
        None \<Rightarrow> Inl (AssertionError [])
      | Some r \<Rightarrow>
          if startswith r NL
          then Inr (Some (NL @ expected_repr @ '': '' @ indent lib r ''  ''))
          else Inr (Some (expected_repr @ '': '' @ r)))"

function (sequential) check_expected ::
  "pylib \<Rightarrow> expected \<Rightarrow> pyexc \<Rightarrow> error + string option" where
  "check_expected lib (EType t) exception = Inr (check_raw_type lib (Some t) exception)"
| "check_expected lib (EMatcher m) exception =
     (case Matcher_matches lib m exception of
        (res, m') \<Rightarrow>
          if res then Inr None
          else describe_failure lib (Matcher_repr lib m') (m_fail_reason m'))"
| "check_expected lib (EGroup g) exception =
     (case matches_with (check_expected lib) lib g (Some exception) of
        Inl err \<Rightarrow> Inl err
      | Inr (res, fail_reason) \<Rightarrow>
          if res then Inr None
          else describe_failure lib (RaisesGroup_repr lib g) fail_reason)"
  by pat_completeness auto
termination
  by (relation "measure (\<lambda>(lib, e, a). size e)")
     (auto dest: size_expected_member)

definition RaisesGroup_check_exceptions ::
  "pylib \<Rightarrow> raisesgroup \<Rightarrow> pyexc \<Rightarrow> pyexc list \<Rightarrow> error + (bool \<times> raisesgroup)" where
  "RaisesGroup_check_exceptions lib self exc_val actual_exceptions =
     (case check_exceptions_with (check_expected lib) lib self exc_val actual_exceptions
             (rg_fail_reason self) of
        Inl err \<Rightarrow> Inl err
      | Inr (res, fail_reason) \<Rightarrow> Inr (res, set_fail_reason self fail_reason))"

definition RaisesGroup_matches ::
  "pylib \<Rightarrow> raisesgroup \<Rightarrow> pyexc option \<Rightarrow> error + (bool \<times> raisesgroup)" where
  "RaisesGroup_matches lib self exc_val =
     (case matches_with (check_expected lib) lib self exc_val of
        Inl err \<Rightarrow> Inl err
      | Inr (res, fail_reason) \<Rightarrow> Inr (res, set_fail_reason self fail_reason))"

section \<open>The context manager and \_ExceptionInfo\<close>

datatype traceback = Traceback nat

text \<open>
  \<open>_excinfo\<close> is \<open>None\<close> until filled, then the tuple \<open>(exc_type, exc_val, exc_tb)\<close> that
  \<open>__exit__\<close> received.
\<close>

datatype exception_info =
  ExceptionInfo (the_excinfo: "(pycls \<times> pyexc option \<times> traceback option) option")

definition for_later :: exception_info where
  "for_later = ExceptionInfo None"

definition fill_unfilled ::
  "exception_info \<Rightarrow> pycls \<times> pyexc option \<times> traceback option \<Rightarrow> error + exception_info" where
  "fill_unfilled self exc_info =
     (if the_excinfo self = None then Inr (ExceptionInfo (Some exc_info))
      else Inl (AssertionError ''ExceptionInfo was already filled''))"

definition info_type :: "exception_info \<Rightarrow> error + pycls" where
  "info_type self =
     (case the_excinfo self of
        None \<Rightarrow> Inl (AssertionError ''.type can only be used after the context manager exits'')
      | Some (t, v, tb) \<Rightarrow> Inr t)"

definition info_value :: "exception_info \<Rightarrow> error + pyexc option" where
  "info_value self =
     (case the_excinfo self of
        None \<Rightarrow> Inl (AssertionError ''.value can only be used after the context manager exits'')
      | Some (t, v, tb) \<Rightarrow> Inr v)"

definition info_tb :: "exception_info \<Rightarrow> error + traceback option" where
  "info_tb self =
     (case the_excinfo self of
        None \<Rightarrow> Inl (AssertionError ''.tb can only be used after the context manager exits'')
      | Some (t, v, tb) \<Rightarrow> Inr tb)"

text \<open>
  The \<open>RaisesGroup\<close> used as a context manager: the matcher and its attribute
  \<open>excinfo\<close>, which does not exist before \<open>__enter__\<close>. The handle \<open>__enter__\<close> returns is
  the object stored in \<open>self.excinfo\<close>, so the caller reads the handle from the state.
  \<open>__exit__\<close> returns its outcome together with the state it leaves behind.
\<close>

record raises_cm =
  cm_self :: raisesgroup
  cm_excinfo :: "exception_info option"

definition RaisesGroup_enter :: "raises_cm \<Rightarrow> exception_info \<times> raises_cm" where
  "RaisesGroup_enter st = (for_later, st\<lparr>cm_excinfo := Some for_later\<rparr>)"

definition RaisesGroup_exit ::
  "pylib \<Rightarrow> raises_cm \<Rightarrow> pycls option \<Rightarrow> pyexc option \<Rightarrow> traceback option
     \<Rightarrow> (error + bool) \<times> raises_cm" where
  "RaisesGroup_exit lib st exc_type_opt exc_val exc_tb =
     (case exc_type_opt of
        None \<Rightarrow>
          (Inl (AssertionError (''DID NOT RAISE any exception, expected ''
                                @ expected_type lib (cm_self st))), st)
      | Some t \<Rightarrow>
          (case cm_excinfo st of
             None \<Rightarrow> (Inl AttributeError, st)
           | Some handle \<Rightarrow>
               (let group_str =
                      (if allow_unwrapped (cm_self st) \<and> \<not> issubclass t BaseExceptionGroup
                       then ''(group)'' else ''group'')
                in case RaisesGroup_matches lib (cm_self st) exc_val of
                     Inl err \<Rightarrow> (Inl err, st)
                   | Inr (ok, self') \<Rightarrow>
                       if \<not> ok then
                         (Inl (AssertionError (''Raised exception '' @ group_str
                                 @ '' did not match: '' @ str_opt (rg_fail_reason self'))),
                          st\<lparr>cm_self := self'\<rparr>)
                       else
                         (case fill_unfilled handle (t, exc_val, exc_tb) of
                            Inl err \<Rightarrow> (Inl err, st\<lparr>cm_self := self'\<rparr>)
                          | Inr handle' \<Rightarrow>
                              (Inr True, st\<lparr>cm_self := self', cm_excinfo := Some handle'\<rparr>)))))"

section \<open>A library instance for plain inputs\<close>

text \<open>
  An instance of the library parameters to run examples with. It is right for patterns made
  of ordinary characters and the postfix operator \<open>+\<close> applied to one character, compiled
  without flags that change their meaning, for strings without quotes or escapes, and for
  texts whose lines end in a newline character.
\<close>

datatype atom = Lit char | Plus char

fun parse_atoms :: "string \<Rightarrow> atom list" where
  "parse_atoms [] = []"
| "parse_atoms [c] = [Lit c]"
| "parse_atoms (c # d # rest) =
     (if d = CHR ''+'' then Plus c # parse_atoms rest else Lit c # parse_atoms (d # rest))"

fun match_here :: "atom list \<Rightarrow> string \<Rightarrow> bool" where
  "match_here [] s = True"
| "match_here (Lit c # as) [] = False"
| "match_here (Lit c # as) (x # s) = (x = c \<and> match_here as s)"
| "match_here (Plus c # as) [] = False"
| "match_here (Plus c # as) (x # s) =
     (x = c \<and> (match_here (Plus c # as) s \<or> match_here as s))"

fun search_atoms :: "atom list \<Rightarrow> string \<Rightarrow> bool" where
  "search_atoms as [] = match_here as []"
| "search_atoms as (x # s) = (match_here as (x # s) \<or> search_atoms as s)"

fun splitlines_keepends :: "string \<Rightarrow> string list" where
  "splitlines_keepends [] = []"
| "splitlines_keepends (c # s) =
     (if c = CHR 0x0A then [c] # splitlines_keepends s
      else (case splitlines_keepends s of
              [] \<Rightarrow> [[c]]
            | l # ls \<Rightarrow> (c # l) # ls))"

definition plain_lib :: pylib where
  "plain_lib =
     \<lparr> re_compile = (\<lambda>s. \<lparr>re_pattern = s, re_flags = 32\<rparr>),
       re_search = (\<lambda>p s. search_atoms (parse_atoms (re_pattern p)) s),
       repr_str = (\<lambda>s. [CHR 0x27] @ s @ [CHR 0x27]),
       repr_pattern = (\<lambda>p. ''re.compile('' @ [CHR 0x27] @ re_pattern p @ [CHR 0x27] @ '', ''
                            @ str_nat (re_flags p) @ '')''),
       repr_exc = (\<lambda>e. cls_name (exc_type e) @ ''('' @ [CHR 0x27] @ exc_message e
                        @ [CHR 0x27] @ '')''),
       indent = (\<lambda>text prefix.
                   concat (map (\<lambda>line. if \<exists>c \<in> set line. c \<notin> set '' '' \<union> {CHR 0x0A, CHR 0x09}
                                       then prefix @ line else line)
                             (splitlines_keepends text))) \<rparr>"

section \<open>Construction errors\<close>

lemma verify_expected_error:
  "verify_expected flatten args isb = Inl err \<Longrightarrow> \<exists>msg. err = ValueError_raised msg"
  by (induction flatten args isb rule: verify_expected.induct)
     (auto split: if_splits sum.splits option.splits)

lemma verify_expected_invalid:
  "(flatten \<and> (\<exists>g. ArgGroup g \<in> set args))
     \<or> (\<exists>r. ArgOther r \<in> set args)
     \<or> (\<exists>c. ArgType c \<in> set args \<and> \<not> issubclass c BaseException)
   \<Longrightarrow> \<exists>msg. verify_expected flatten args isb = Inl (ValueError_raised msg)"
proof (induction flatten args isb rule: verify_expected.induct)
  case (1 flatten isb)
  then show ?case by simp
next
  case (2 flatten g rest isb)
  show ?case
  proof (cases flatten)
    case True
    then show ?thesis by simp
  next
    case False
    with 2 obtain msg where
      "verify_expected flatten rest (isb \<or> is_baseexceptiongroup g) = Inl (ValueError_raised msg)"
      by auto
    with False show ?thesis by simp
  qed
next
  case (3 flatten m rest isb)
  from 3 obtain msg where
    "verify_expected flatten rest
       (case m_exception_type m of None \<Rightarrow> isb | Some t \<Rightarrow> isb \<or> \<not> issubclass t Exception)
     = Inl (ValueError_raised msg)"
    by auto
  then show ?case by simp
next
  case (4 flatten c rest isb)
  show ?case
  proof (cases "issubclass c BaseException")
    case False
    then show ?thesis by simp
  next
    case True
    with 4 obtain msg where
      "verify_expected flatten rest (isb \<or> \<not> issubclass c Exception) = Inl (ValueError_raised msg)"
      by auto
    with True show ?thesis by simp
  qed
next
  case (5 flatten r rest isb)
  show ?case by simp
qed

lemma RaisesGroup_init_error:
  "RaisesGroup_init lib exception others aw fl match check = Inl err
   \<Longrightarrow> \<exists>msg. err = ValueError_raised msg"
  by (auto simp: RaisesGroup_init_def split: if_splits sum.splits dest: verify_expected_error)

lemma RaisesGroup_init_verify:
  "\<exists>msg. verify_expected fl (exception # others) False = Inl (ValueError_raised msg) \<Longrightarrow>
   \<exists>msg. RaisesGroup_init lib exception others aw fl match check = Inl (ValueError_raised msg)"
  unfolding RaisesGroup_init_def by (auto simp del: verify_expected.simps)

text \<open>
  Claim C4. Every invalid configuration is rejected by the constructor with a
  \<open>ValueError\<close>, and no matcher object is returned: a \<open>Matcher\<close> with \<open>exception_type\<close>,
  \<open>match\<close> and \<open>check\<close> all unset; a \<open>Matcher\<close> whose \<open>exception_type\<close> is not a subclass
  of \<open>BaseException\<close>; a \<open>RaisesGroup\<close> with \<open>allow_unwrapped=True\<close> and more than one
  expected exception, a nested \<open>RaisesGroup\<close>, or a \<open>match\<close> or \<open>check\<close> argument; a
  \<open>RaisesGroup\<close> with \<open>flatten_subgroups=True\<close> and a nested \<open>RaisesGroup\<close> among its
  arguments; a \<open>RaisesGroup\<close> with an argument that is neither an exception class, nor a
  \<open>Matcher\<close>, nor a \<open>RaisesGroup\<close>.
\<close>

theorem invalid_configuration_raises:
  "(\<exists>msg. Matcher_init lib None None None = Inl (ValueError_raised msg))
   \<and> (\<not> issubclass t BaseException \<longrightarrow>
        (\<exists>msg. Matcher_init lib (Some t) match check = Inl (ValueError_raised msg)))
   \<and> (others \<noteq> [] \<longrightarrow>
        (\<exists>msg. RaisesGroup_init lib exception others True fl rg_match rg_chk
                 = Inl (ValueError_raised msg)))
   \<and> (\<exists>msg. RaisesGroup_init lib (ArgGroup g) others True fl rg_match rg_chk
               = Inl (ValueError_raised msg))
   \<and> (rg_match \<noteq> None \<or> rg_chk \<noteq> None \<longrightarrow>
        (\<exists>msg. RaisesGroup_init lib exception others True fl rg_match rg_chk
                 = Inl (ValueError_raised msg)))
   \<and> (ArgGroup g \<in> set (exception # others) \<longrightarrow>
        (\<exists>msg. RaisesGroup_init lib exception others aw True rg_match rg_chk
                 = Inl (ValueError_raised msg)))
   \<and> (ArgOther r \<in> set (exception # others)
          \<or> (ArgType c \<in> set (exception # others) \<and> \<not> issubclass c BaseException) \<longrightarrow>
        (\<exists>msg. RaisesGroup_init lib exception others aw fl rg_match rg_chk
                 = Inl (ValueError_raised msg)))"
proof (intro conjI impI)
  show "\<exists>msg. Matcher_init lib None None None = Inl (ValueError_raised msg)"
    by (simp add: Matcher_init_def)
  show "\<exists>msg. Matcher_init lib (Some t) match check = Inl (ValueError_raised msg)"
    if "\<not> issubclass t BaseException"
    using that by (simp add: Matcher_init_def)
  show "\<exists>msg. RaisesGroup_init lib exception others True fl rg_match rg_chk
               = Inl (ValueError_raised msg)"
    if "others \<noteq> []"
    using that by (simp add: RaisesGroup_init_def)
  show "\<exists>msg. RaisesGroup_init lib (ArgGroup g) others True fl rg_match rg_chk
               = Inl (ValueError_raised msg)"
    by (simp add: RaisesGroup_init_def)
  show "\<exists>msg. RaisesGroup_init lib exception others True fl rg_match rg_chk
               = Inl (ValueError_raised msg)"
    if "rg_match \<noteq> None \<or> rg_chk \<noteq> None"
  proof (cases "verify_expected fl (exception # others) False")
    case (Inl err)
    then show ?thesis
      using verify_expected_error [OF Inl] RaisesGroup_init_verify by blast
  next
    case (Inr ok)
    then show ?thesis
      using that by (auto simp: RaisesGroup_init_def simp del: verify_expected.simps)
  qed
  show "\<exists>msg. RaisesGroup_init lib exception others aw True rg_match rg_chk
               = Inl (ValueError_raised msg)"
    if "ArgGroup g \<in> set (exception # others)"
    by (rule RaisesGroup_init_verify, rule verify_expected_invalid) (use that in blast)
  show "\<exists>msg. RaisesGroup_init lib exception others aw fl rg_match rg_chk
               = Inl (ValueError_raised msg)"
    if "ArgOther r \<in> set (exception # others)
          \<or> (ArgType c \<in> set (exception # others) \<and> \<not> issubclass c BaseException)"
    by (rule RaisesGroup_init_verify, rule verify_expected_invalid) (use that in blast)
qed

theorem invalid_configuration_raises_witness:
  "(\<exists>msg. Matcher_init plain_lib None None None = Inl (ValueError_raised msg))
   \<and> (\<exists>msg. Matcher_init plain_lib (Some (PyCls ''int'' [''object''])) None None
               = Inl (ValueError_raised msg))
   \<and> (\<exists>msg. RaisesGroup_init plain_lib
                 (ArgGroup (RaisesGroup [EType ValueError] False False None None False None False))
                 [ArgOther ''5'', ArgType (PyCls ''int'' [''object''])] True False
                 (Some (MatchStr ''x'')) None
               = Inl (ValueError_raised msg))
   \<and> (\<exists>msg. RaisesGroup_init plain_lib
                 (ArgGroup (RaisesGroup [EType ValueError] False False None None False None False))
                 [ArgOther ''5'', ArgType (PyCls ''int'' [''object''])] False True
                 (Some (MatchStr ''x'')) None
               = Inl (ValueError_raised msg))
   \<and> (\<exists>msg. RaisesGroup_init plain_lib
                 (ArgGroup (RaisesGroup [EType ValueError] False False None None False None False))
                 [ArgOther ''5'', ArgType (PyCls ''int'' [''object''])] False False
                 (Some (MatchStr ''x'')) None
               = Inl (ValueError_raised msg))"
  using invalid_configuration_raises
          [of plain_lib "PyCls ''int'' [''object'']" None None
              "[ArgOther ''5'', ArgType (PyCls ''int'' [''object''])]"
              "ArgGroup (RaisesGroup [EType ValueError] False False None None False None False)"
              False "Some (MatchStr ''x'')" None
              "RaisesGroup [EType ValueError] False False None None False None False"
              False "''5''" "PyCls ''int'' [''object'']"]
  by (simp add: issubclass_def BaseException_def)

section \<open>Evaluating the model on concrete inputs\<close>

lemmas eval_defs =
  RaisesGroup_matches_def matches_with_def check_exceptions_with_def failure_report_def
  general_report_def initial_pairing_def ResultHolder_init_def set_result_def get_result_def
  has_result_def check_match_def check_check_def check_raw_type_def isinstance_def
  issubclass_def BaseExceptionGroup_def ExceptionGroup_def ValueError_def TypeError_def
  Matcher_matches_def Matcher_check_type_def describe_failure_def startswith_def
  stringify_exception_def exception_type_name_def match_pattern_def REGEX_NO_FLAGS_def
  Matcher_repr_def plain_lib_def indent_1_def indent_2_def repr_list_def enumerate_eq_zip
  Let_def str_nat.simps

section \<open>The capture handle\<close>

lemma exit_after_enter:
  assumes "cm_excinfo st = Some for_later"
  shows "(\<exists>self'. RaisesGroup_exit lib st t v tb
              = (Inr True, st\<lparr>cm_self := self',
                                cm_excinfo := Some (ExceptionInfo (Some (the t, v, tb)))\<rparr>)
            \<and> t \<noteq> None
            \<and> RaisesGroup_matches lib (cm_self st) v = Inr (True, self'))
         \<or> (\<exists>err st'. RaisesGroup_exit lib st t v tb = (Inl err, st')
               \<and> cm_excinfo st' = Some for_later
               \<and> (t = None \<or> (\<nexists>self'. RaisesGroup_matches lib (cm_self st) v = Inr (True, self'))))"
  using assms
  by (auto simp: RaisesGroup_exit_def fill_unfilled_def for_later_def Let_def
           split: option.splits sum.splits)

text \<open>
  Claim C5. \<open>__enter__\<close> returns an unfilled handle, the one kept in \<open>self.excinfo\<close>.
  \<open>__exit__\<close> called after it has two outcomes only. Either it returns \<open>True\<close>, and then an
  exception was raised, \<open>matches\<close> accepted it, and the handle holds
  \<open>(exc_type, exc_val, exc_tb)\<close>. Or it raises, and then the handle is still unfilled and
  either no exception was raised or \<open>matches\<close> did not accept it. A filled handle cannot be
  filled again, an unfilled one is filled by \<open>fill_unfilled\<close>, and reading \<open>type\<close>, \<open>value\<close>
  or \<open>tb\<close> of an unfilled handle raises.
\<close>

theorem capture_handle_protocol:
  "fst (RaisesGroup_enter st) = for_later
   \<and> cm_excinfo (snd (RaisesGroup_enter st)) = Some for_later
   \<and> the_excinfo for_later = None
   \<and> ((\<exists>self'. RaisesGroup_exit lib (snd (RaisesGroup_enter st)) t v tb
              = (Inr True, st\<lparr>cm_self := self',
                                cm_excinfo := Some (ExceptionInfo (Some (the t, v, tb)))\<rparr>)
            \<and> t \<noteq> None
            \<and> RaisesGroup_matches lib (cm_self st) v = Inr (True, self'))
         \<or> (\<exists>err st'. RaisesGroup_exit lib (snd (RaisesGroup_enter st)) t v tb = (Inl err, st')
               \<and> cm_excinfo st' = Some for_later
               \<and> (t = None \<or> (\<nexists>self'. RaisesGroup_matches lib (cm_self st) v = Inr (True, self')))))
   \<and> (\<exists>err. fill_unfilled (ExceptionInfo (Some old)) info = Inl err)
   \<and> fill_unfilled (ExceptionInfo None) info = Inr (ExceptionInfo (Some info))
   \<and> (\<exists>err. info_type (ExceptionInfo None) = Inl err)
   \<and> (\<exists>err. info_value (ExceptionInfo None) = Inl err)
   \<and> (\<exists>err. info_tb (ExceptionInfo None) = Inl err)"
proof -
  have e: "cm_excinfo (snd (RaisesGroup_enter st)) = Some for_later"
    "cm_self (snd (RaisesGroup_enter st)) = cm_self st"
    "fst (RaisesGroup_enter st) = for_later"
    by (simp_all add: RaisesGroup_enter_def)
  have u: "\<And>x y. (snd (RaisesGroup_enter st))\<lparr>cm_self := x, cm_excinfo := y\<rparr>
                  = st\<lparr>cm_self := x, cm_excinfo := y\<rparr>"
    by (simp add: RaisesGroup_enter_def)
  have x: "(\<exists>self'. RaisesGroup_exit lib (snd (RaisesGroup_enter st)) t v tb
              = (Inr True, st\<lparr>cm_self := self',
                                cm_excinfo := Some (ExceptionInfo (Some (the t, v, tb)))\<rparr>)
            \<and> t \<noteq> None
            \<and> RaisesGroup_matches lib (cm_self st) v = Inr (True, self'))
         \<or> (\<exists>err st'. RaisesGroup_exit lib (snd (RaisesGroup_enter st)) t v tb = (Inl err, st')
               \<and> cm_excinfo st' = Some for_later
               \<and> (t = None \<or> (\<nexists>self'. RaisesGroup_matches lib (cm_self st) v = Inr (True, self'))))"
    using exit_after_enter [OF e(1), of lib t v tb] unfolding e(2) u .
  have f: "\<exists>err. fill_unfilled (ExceptionInfo (Some old)) info = Inl err"
    "fill_unfilled (ExceptionInfo None) info = Inr (ExceptionInfo (Some info))"
    by (simp_all add: fill_unfilled_def)
  have r: "\<exists>err. info_type (ExceptionInfo None) = Inl err"
    "\<exists>err. info_value (ExceptionInfo None) = Inl err"
    "\<exists>err. info_tb (ExceptionInfo None) = Inl err"
    by (simp_all add: info_type_def info_value_def info_tb_def)
  show ?thesis
    using e(3) e(1) x f r by (simp add: for_later_def)
qed

theorem capture_handle_protocol_witness:
  "RaisesGroup_exit plain_lib
     (snd (RaisesGroup_enter
        \<lparr>cm_self = RaisesGroup [EType ValueError] False False None None False None False,
         cm_excinfo = None\<rparr>))
     (Some ExceptionGroup)
     (Some (PyExc ExceptionGroup [] [] [PyExc ValueError ''x'' [] []]))
     (Some (Traceback 0))
   = (Inr True,
      \<lparr>cm_self = RaisesGroup [EType ValueError] False False None None False None False,
       cm_excinfo = Some (ExceptionInfo (Some (ExceptionGroup,
          Some (PyExc ExceptionGroup [] [] [PyExc ValueError ''x'' [] []]),
          Some (Traceback 0))))\<rparr>)"
proof -
  have m: "RaisesGroup_matches plain_lib
             (RaisesGroup [EType ValueError] False False None None False None False)
             (Some (PyExc ExceptionGroup [] [] [PyExc ValueError ''x'' [] []]))
           = Inr (True, RaisesGroup [EType ValueError] False False None None False None False)"
    by (simp add: eval_defs)
  show ?thesis
    using capture_handle_protocol
            [of "\<lparr>cm_self = RaisesGroup [EType ValueError] False False None None False None False,
                  cm_excinfo = None\<rparr>"
                plain_lib "Some ExceptionGroup"
                "Some (PyExc ExceptionGroup [] [] [PyExc ValueError ''x'' [] []])"
                "Some (Traceback 0)"]
          m
    by auto
qed

section \<open>fail_reason after a call of matches\<close>

lemma check_match_result:
  "check_match lib me e fr = (ok, r) \<Longrightarrow> (ok \<longrightarrow> r = fr) \<and> (\<not> ok \<longrightarrow> r \<noteq> None)"
  by (auto simp: check_match_def Let_def split: option.splits if_splits)

lemma check_check_result:
  "check_check ck e s fr = (ok, r) \<Longrightarrow> (ok \<longrightarrow> r = fr) \<and> (\<not> ok \<longrightarrow> r \<noteq> None)"
  by (auto simp: check_check_def Let_def split: option.splits if_splits)

definition is_failure :: "error + (bool \<times> string option) \<Rightarrow> bool" where
  "is_failure x = (case x of Inl err \<Rightarrow> True | Inr (b, r) \<Rightarrow> \<not> b \<and> r \<noteq> None)"

lemma is_failure_simps [simp]:
  "is_failure (Inl err)"
  "is_failure (Inr (b, r)) \<longleftrightarrow> \<not> b \<and> r \<noteq> None"
  by (simp_all add: is_failure_def)

lemma is_failure_bind:
  "(\<And>x. is_failure (f x)) \<Longrightarrow> is_failure (case m of Inl err \<Rightarrow> Inl err | Inr x \<Rightarrow> f x)"
  by (cases m) auto

lemma is_failure_if:
  "is_failure a \<Longrightarrow> is_failure b \<Longrightarrow> is_failure (if c then a else b)"
  by simp

lemma is_failure_let: "is_failure (f a) \<Longrightarrow> is_failure (Let a f)"
  by simp

lemma general_report_is_failure:
  "is_failure (general_report lib self acts results rem failed matches sstr)"
  unfolding general_report_def
  by (intro is_failure_let is_failure_bind is_failure_if) simp

lemma failure_report_is_failure:
  "is_failure (failure_report lib self acts results rem failed matches)"
  unfolding failure_report_def
  by (intro is_failure_let is_failure_bind is_failure_if general_report_is_failure) simp_all


definition keeps_reason :: "string option \<Rightarrow> error + (bool \<times> string option) \<Rightarrow> bool" where
  "keeps_reason fr x = (case x of Inl err \<Rightarrow> True | Inr (b, r) \<Rightarrow> b \<longrightarrow> r = fr)"

lemma keeps_reason_simps [simp]:
  "keeps_reason fr (Inl err)"
  "keeps_reason fr (Inr (b, r)) \<longleftrightarrow> (b \<longrightarrow> r = fr)"
  by (simp_all add: keeps_reason_def)

lemma is_failure_keeps_reason: "is_failure x \<Longrightarrow> keeps_reason fr x"
  by (auto simp: is_failure_def keeps_reason_def split: sum.splits)

lemma keeps_reason_bind:
  "(\<And>x. keeps_reason fr (f x)) \<Longrightarrow>
   keeps_reason fr (case m of Inl err \<Rightarrow> Inl err | Inr x \<Rightarrow> f x)"
  by (cases m) auto

lemma keeps_reason_if:
  "(c \<Longrightarrow> keeps_reason fr a) \<Longrightarrow> (\<not> c \<Longrightarrow> keeps_reason fr b) \<Longrightarrow>
   keeps_reason fr (if c then a else b)"
  by simp

lemma keeps_reason_option:
  "keeps_reason fr a \<Longrightarrow> (\<And>x. keeps_reason fr (f x)) \<Longrightarrow>
   keeps_reason fr (case v of None \<Rightarrow> a | Some x \<Rightarrow> f x)"
  by (cases v) auto

lemma check_exceptions_with_keeps:
  "keeps_reason fr (check_exceptions_with chk lib self ev acts fr)"
  unfolding check_exceptions_with_def Let_def
  by (intro keeps_reason_bind keeps_reason_if keeps_reason_option
        is_failure_keeps_reason [OF failure_report_is_failure])
     simp_all

lemma check_exceptions_with_True:
  "check_exceptions_with chk lib self ev acts fr = Inr (True, r) \<Longrightarrow> r = fr"
  using check_exceptions_with_keeps [of fr chk lib self ev acts] by simp


definition reason_iff :: "error + (bool \<times> string option) \<Rightarrow> bool" where
  "reason_iff x = (case x of Inl err \<Rightarrow> True | Inr (b, r) \<Rightarrow> b \<longleftrightarrow> r = None)"

lemma reason_iff_simps [simp]:
  "reason_iff (Inl err)"
  "reason_iff (Inr (b, r)) \<longleftrightarrow> (b \<longleftrightarrow> r = None)"
  by (simp_all add: reason_iff_def)

lemma reason_iff_bind:
  "(\<And>x. m = Inr x \<Longrightarrow> reason_iff (f x)) \<Longrightarrow>
   reason_iff (case m of Inl err \<Rightarrow> Inl err | Inr x \<Rightarrow> f x)"
  by (cases m) auto

lemma reason_iff_if:
  "(c \<Longrightarrow> reason_iff a) \<Longrightarrow> (\<not> c \<Longrightarrow> reason_iff b) \<Longrightarrow> reason_iff (if c then a else b)"
  by simp

lemma reason_iff_option:
  "(v = None \<Longrightarrow> reason_iff a) \<Longrightarrow> (\<And>x. v = Some x \<Longrightarrow> reason_iff (f x)) \<Longrightarrow>
   reason_iff (case v of None \<Rightarrow> a | Some x \<Rightarrow> f x)"
  by (cases v) auto

lemma reason_iff_list:
  "(v = [] \<Longrightarrow> reason_iff a) \<Longrightarrow> (\<And>x xs. v = x # xs \<Longrightarrow> reason_iff (f x xs)) \<Longrightarrow>
   reason_iff (case v of [] \<Rightarrow> a | x # xs \<Rightarrow> f x xs)"
  by (cases v) auto

lemma reason_iff_prod:
  "(\<And>a b. p = (a, b) \<Longrightarrow> reason_iff (f a b)) \<Longrightarrow> reason_iff (case p of (a, b) \<Rightarrow> f a b)"
  by (cases p) auto

lemma reason_iff_let: "reason_iff (f a) \<Longrightarrow> reason_iff (Let a f)"
  by simp

lemma reason_iff_check_check: "reason_iff (Inr (check_check ck e s None))"
  by (cases "check_check ck e s None") (auto dest: check_check_result)

lemma matches_with_reason_iff:
  "reason_iff (matches_with chk lib self x)"
  unfolding matches_with_def
  apply (intro reason_iff_let reason_iff_option reason_iff_if reason_iff_list reason_iff_bind
           reason_iff_prod)
  apply (auto dest!: check_match_result check_check_result check_exceptions_with_True
              simp: reason_iff_check_check
              split: expected.split list.split option.split)
  done

lemma rg_fail_reason_set [simp]: "rg_fail_reason (set_fail_reason g r) = r"
  by (cases g) simp

lemma Matcher_matches_fail_reason:
  assumes a: "Matcher_matches lib m e = (b, m')"
  shows "b \<longleftrightarrow> m_fail_reason m' = None"
proof -
  obtain ok1 r1 where c1:
    "check_match lib (m_match m) e (check_raw_type lib (m_exception_type m) e) = (ok1, r1)"
    by (cases "check_match lib (m_match m) e (check_raw_type lib (m_exception_type m) e)")
  obtain ok2 r2 where c2: "check_check (m_check m) e True r1 = (ok2, r2)"
    by (cases "check_check (m_check m) e True r1")
  from a c1 c2 check_match_result [OF c1] check_check_result [OF c2]
  show ?thesis
    by (auto simp: Matcher_matches_def Matcher_check_type_def Let_def split: if_splits)
qed

text \<open>
  Claim C10. After \<open>Matcher.matches\<close> and after \<open>RaisesGroup.matches\<close> have returned,
  \<open>fail_reason\<close> is \<open>None\<close> if the result is \<open>True\<close> and a string if it is \<open>False\<close>, whatever
  \<open>fail_reason\<close> held before the call.
\<close>

theorem fail_reason_after_matches:
  "(Matcher_matches lib m e = (b, m') \<longrightarrow> (b \<longleftrightarrow> m_fail_reason m' = None))
   \<and> (RaisesGroup_matches lib g x = Inr (ok, g') \<longrightarrow> (ok \<longleftrightarrow> rg_fail_reason g' = None))"
proof (intro conjI impI)
  assume "Matcher_matches lib m e = (b, m')"
  then show "b \<longleftrightarrow> m_fail_reason m' = None"
    by (rule Matcher_matches_fail_reason)
next
  assume a: "RaisesGroup_matches lib g x = Inr (ok, g')"
  then obtain r where "matches_with (check_expected lib) lib g x = Inr (ok, r)"
    and "g' = set_fail_reason g r"
    by (auto simp: RaisesGroup_matches_def split: sum.splits)
  with matches_with_reason_iff [of "check_expected lib" lib g x]
  show "ok \<longleftrightarrow> rg_fail_reason g' = None"
    by auto
qed

theorem fail_reason_after_matches_witness:
  "Matcher_matches plain_lib
     \<lparr>m_exception_type = Some ValueError, m_match = None, m_check = None,
      m_fail_reason = Some ''stale'', m_nested = True\<rparr>
     (PyExc ValueError ''x'' [] [])
   = (True, \<lparr>m_exception_type = Some ValueError, m_match = None, m_check = None,
             m_fail_reason = None, m_nested = True\<rparr>)
   \<and> RaisesGroup_matches plain_lib
         (RaisesGroup [EType ValueError] False False None None False (Some ''stale'') False)
         (Some (PyExc ExceptionGroup [] [] [PyExc ValueError ''x'' [] []]))
       = Inr (True, RaisesGroup [EType ValueError] False False None None False None False)
   \<and> (True \<longleftrightarrow>
        m_fail_reason \<lparr>m_exception_type = Some ValueError, m_match = None, m_check = None,
                        m_fail_reason = None, m_nested = True\<rparr> = None)
   \<and> (True \<longleftrightarrow>
        rg_fail_reason (RaisesGroup [EType ValueError] False False None None False None False)
          = None)"
proof -
  have a: "Matcher_matches plain_lib
     \<lparr>m_exception_type = Some ValueError, m_match = None, m_check = None,
      m_fail_reason = Some ''stale'', m_nested = True\<rparr>
     (PyExc ValueError ''x'' [] [])
   = (True, \<lparr>m_exception_type = Some ValueError, m_match = None, m_check = None,
             m_fail_reason = None, m_nested = True\<rparr>)"
    by (simp add: eval_defs)
  have b: "RaisesGroup_matches plain_lib
         (RaisesGroup [EType ValueError] False False None None False (Some ''stale'') False)
         (Some (PyExc ExceptionGroup [] [] [PyExc ValueError ''x'' [] []]))
       = Inr (True, RaisesGroup [EType ValueError] False False None None False None False)"
    by (simp add: eval_defs)
  show ?thesis
    using fail_reason_after_matches
            [of plain_lib
                "\<lparr>m_exception_type = Some ValueError, m_match = None, m_check = None,
                  m_fail_reason = Some ''stale'', m_nested = True\<rparr>"
                "PyExc ValueError ''x'' [] []" True
                "\<lparr>m_exception_type = Some ValueError, m_match = None, m_check = None,
                  m_fail_reason = None, m_nested = True\<rparr>"
                "RaisesGroup [EType ValueError] False False None None False (Some ''stale'') False"
                "Some (PyExc ExceptionGroup [] [] [PyExc ValueError ''x'' [] []])" True
                "RaisesGroup [EType ValueError] False False None None False None False"]
          a b
    by simp
qed

section \<open>The checks of Matcher.matches\<close>

definition type_ok :: "matcher \<Rightarrow> pyexc \<Rightarrow> bool" where
  "type_ok m e = (case m_exception_type m of None \<Rightarrow> True | Some t \<Rightarrow> isinstance e t)"

definition match_ok :: "pylib \<Rightarrow> matcher \<Rightarrow> pyexc \<Rightarrow> bool" where
  "match_ok lib m e =
     (case m_match m of
        None \<Rightarrow> True
      | Some p \<Rightarrow> re_search lib p (str_join NL (exc_message e # exc_notes e)))"

definition check_ok :: "matcher \<Rightarrow> pyexc \<Rightarrow> bool" where
  "check_ok m e = (case m_check m of None \<Rightarrow> True | Some fn \<Rightarrow> check_call fn e)"

lemma check_raw_type_ok: "type_ok m e \<Longrightarrow> check_raw_type lib (m_exception_type m) e = None"
  by (auto simp: type_ok_def check_raw_type_def split: option.splits)

text \<open>
  Claim C8, as the code has it. \<open>Matcher.matches\<close> runs the type check, then the
  text-pattern check, then the predicate check; an unset check passes. The first check
  that fails decides \<open>fail_reason\<close> and the result is \<open>False\<close>; when all pass the result is
  \<open>True\<close> and \<open>fail_reason\<close> is \<open>None\<close>. The pattern is searched with \<open>re.search\<close> in the
  message joined with the notes by newlines. The hint about \<open>re.escape\<close> is appended if
  and only if the pattern has the flags of a pattern compiled from a plain string and its
  pattern string equals that text.
\<close>

theorem Matcher_matches_checks_in_order:
  "(m_exception_type m1 = Some t \<and> \<not> isinstance e1 t \<longrightarrow>
      Matcher_matches lib m1 e1
      = (False, m1\<lparr>m_fail_reason := Some
           (if isinstance e1 BaseExceptionGroup
            then ''Unexpected nested '' @ repr_str lib (cls_name (exc_type e1))
                 @ '', expected bare '' @ repr_str lib (cls_name t)
            else repr_str lib (cls_name (exc_type e1)) @ '' is not of type ''
                 @ repr_str lib (cls_name t))\<rparr>))
   \<and> (type_ok m2 e2 \<and> m_match m2 = Some p
        \<and> \<not> re_search lib p (str_join NL (exc_message e2 # exc_notes e2)) \<longrightarrow>
      Matcher_matches lib m2 e2
      = (False, m2\<lparr>m_fail_reason := Some
           (''Regex pattern ''
            @ (if re_flags p = REGEX_NO_FLAGS lib then repr_str lib (re_pattern p)
               else repr_pattern lib p)
            @ '' did not match '' @ repr_str lib (str_join NL (exc_message e2 # exc_notes e2))
            @ (if isinstance e2 BaseExceptionGroup
               then '' of '' @ repr_str lib (cls_name (exc_type e2)) else [])
            @ (if re_flags p = REGEX_NO_FLAGS lib
                  \<and> re_pattern p = str_join NL (exc_message e2 # exc_notes e2)
               then NL @ ''Did you mean to `re.escape()` the regex?'' else []))\<rparr>))
   \<and> (type_ok m3 e3 \<and> match_ok lib m3 e3 \<and> m_check m3 = Some fn \<and> \<not> check_call fn e3 \<longrightarrow>
      Matcher_matches lib m3 e3
      = (False, m3\<lparr>m_fail_reason := Some ''check did not return True''\<rparr>))
   \<and> (type_ok m4 e4 \<and> match_ok lib m4 e4 \<and> check_ok m4 e4 \<longrightarrow>
      Matcher_matches lib m4 e4 = (True, m4\<lparr>m_fail_reason := None\<rparr>))"
proof (intro conjI impI)
  assume "m_exception_type m1 = Some t \<and> \<not> isinstance e1 t"
  then show "Matcher_matches lib m1 e1
      = (False, m1\<lparr>m_fail_reason := Some
           (if isinstance e1 BaseExceptionGroup
            then ''Unexpected nested '' @ repr_str lib (cls_name (exc_type e1))
                 @ '', expected bare '' @ repr_str lib (cls_name t)
            else repr_str lib (cls_name (exc_type e1)) @ '' is not of type ''
                 @ repr_str lib (cls_name t))\<rparr>)"
    by (simp add: Matcher_matches_def Matcher_check_type_def check_raw_type_def
          exception_type_name_def Let_def)
next
  assume a: "type_ok m2 e2 \<and> m_match m2 = Some p
        \<and> \<not> re_search lib p (str_join NL (exc_message e2 # exc_notes e2))"
  then have t: "check_raw_type lib (m_exception_type m2) e2 = None"
    by (simp add: check_raw_type_ok)
  from a t show "Matcher_matches lib m2 e2
      = (False, m2\<lparr>m_fail_reason := Some
           (''Regex pattern ''
            @ (if re_flags p = REGEX_NO_FLAGS lib then repr_str lib (re_pattern p)
               else repr_pattern lib p)
            @ '' did not match '' @ repr_str lib (str_join NL (exc_message e2 # exc_notes e2))
            @ (if isinstance e2 BaseExceptionGroup
               then '' of '' @ repr_str lib (cls_name (exc_type e2)) else [])
            @ (if re_flags p = REGEX_NO_FLAGS lib
                  \<and> re_pattern p = str_join NL (exc_message e2 # exc_notes e2)
               then NL @ ''Did you mean to `re.escape()` the regex?'' else []))\<rparr>)"
    by (simp add: Matcher_matches_def Matcher_check_type_def check_match_def
          stringify_exception_def match_pattern_def exception_type_name_def Let_def)
next
  assume a: "type_ok m3 e3 \<and> match_ok lib m3 e3 \<and> m_check m3 = Some fn \<and> \<not> check_call fn e3"
  then have t: "check_raw_type lib (m_exception_type m3) e3 = None"
    by (simp add: check_raw_type_ok)
  from a have "check_match lib (m_match m3) e3 None = (True, None)"
    by (auto simp: match_ok_def check_match_def stringify_exception_def Let_def
             split: option.splits)
  with a t show "Matcher_matches lib m3 e3
      = (False, m3\<lparr>m_fail_reason := Some ''check did not return True''\<rparr>)"
    by (simp add: Matcher_matches_def Matcher_check_type_def check_check_def Let_def)
next
  assume a: "type_ok m4 e4 \<and> match_ok lib m4 e4 \<and> check_ok m4 e4"
  then have t: "check_raw_type lib (m_exception_type m4) e4 = None"
    by (simp add: check_raw_type_ok)
  from a have "check_match lib (m_match m4) e4 None = (True, None)"
    by (auto simp: match_ok_def check_match_def stringify_exception_def Let_def
             split: option.splits)
  moreover from a have "check_check (m_check m4) e4 True None = (True, None)"
    by (auto simp: check_ok_def check_check_def split: option.splits)
  ultimately show "Matcher_matches lib m4 e4 = (True, m4\<lparr>m_fail_reason := None\<rparr>)"
    using t by (simp add: Matcher_matches_def Matcher_check_type_def)
qed

theorem Matcher_matches_checks_in_order_witness:
  "Matcher_matches plain_lib
     \<lparr>m_exception_type = Some ValueError, m_match = None, m_check = None,
      m_fail_reason = None, m_nested = True\<rparr>
     (PyExc TypeError ''x'' [] [])
   = (False, \<lparr>m_exception_type = Some ValueError, m_match = None, m_check = None,
              m_fail_reason = Some ([CHR 0x27] @ ''TypeError'' @ [CHR 0x27] @ '' is not of type ''
                                    @ [CHR 0x27] @ ''ValueError'' @ [CHR 0x27]),
              m_nested = True\<rparr>)
   \<and> Matcher_matches plain_lib
       \<lparr>m_exception_type = None, m_match = Some \<lparr>re_pattern = ''a+b'', re_flags = 32\<rparr>,
        m_check = None, m_fail_reason = None, m_nested = True\<rparr>
       (PyExc ValueError ''a+b'' [] [])
     = (False, \<lparr>m_exception_type = None,
                m_match = Some \<lparr>re_pattern = ''a+b'', re_flags = 32\<rparr>, m_check = None,
                m_fail_reason = Some (''Regex pattern '' @ [CHR 0x27] @ ''a+b'' @ [CHR 0x27]
                   @ '' did not match '' @ [CHR 0x27] @ ''a+b'' @ [CHR 0x27] @ NL
                   @ ''Did you mean to `re.escape()` the regex?''),
                m_nested = True\<rparr>)
   \<and> Matcher_matches plain_lib
       \<lparr>m_exception_type = None, m_match = None,
        m_check = Some (CheckFn ''f'' (\<lambda>e. False)), m_fail_reason = None, m_nested = True\<rparr>
       (PyExc ValueError ''x'' [] [])
     = (False, \<lparr>m_exception_type = None, m_match = None,
                m_check = Some (CheckFn ''f'' (\<lambda>e. False)),
                m_fail_reason = Some ''check did not return True'', m_nested = True\<rparr>)
   \<and> Matcher_matches plain_lib
       \<lparr>m_exception_type = Some ValueError,
        m_match = Some \<lparr>re_pattern = ''hello'', re_flags = 32\<rparr>,
        m_check = Some (CheckFn ''f'' (\<lambda>e. True)), m_fail_reason = Some ''stale'',
        m_nested = True\<rparr>
       (PyExc ValueError ''hello'' [] [])
     = (True, \<lparr>m_exception_type = Some ValueError,
               m_match = Some \<lparr>re_pattern = ''hello'', re_flags = 32\<rparr>,
               m_check = Some (CheckFn ''f'' (\<lambda>e. True)), m_fail_reason = None,
               m_nested = True\<rparr>)"
  using Matcher_matches_checks_in_order
    [where lib = plain_lib
       and ?m1.0 = "\<lparr>m_exception_type = Some ValueError, m_match = None, m_check = None,
                     m_fail_reason = None, m_nested = True\<rparr>"
       and t = ValueError
       and ?e1.0 = "PyExc TypeError ''x'' [] []"
       and ?m2.0 = "\<lparr>m_exception_type = None,
                     m_match = Some \<lparr>re_pattern = ''a+b'', re_flags = 32\<rparr>,
                     m_check = None, m_fail_reason = None, m_nested = True\<rparr>"
       and p = "\<lparr>re_pattern = ''a+b'', re_flags = 32\<rparr>"
       and ?e2.0 = "PyExc ValueError ''a+b'' [] []"
       and ?m3.0 = "\<lparr>m_exception_type = None, m_match = None,
                     m_check = Some (CheckFn ''f'' (\<lambda>e. False)), m_fail_reason = None,
                     m_nested = True\<rparr>"
       and fn = "CheckFn ''f'' (\<lambda>e. False)"
       and ?e3.0 = "PyExc ValueError ''x'' [] []"
       and ?m4.0 = "\<lparr>m_exception_type = Some ValueError,
                     m_match = Some \<lparr>re_pattern = ''hello'', re_flags = 32\<rparr>,
                     m_check = Some (CheckFn ''f'' (\<lambda>e. True)),
                     m_fail_reason = Some ''stale'', m_nested = True\<rparr>"
       and ?e4.0 = "PyExc ValueError ''hello'' [] []"]
  by (simp add: type_ok_def match_ok_def check_ok_def isinstance_def issubclass_def
        ValueError_def TypeError_def BaseExceptionGroup_def plain_lib_def REGEX_NO_FLAGS_def)

text \<open>
  The claim as stated fails for a pattern compiled with flags: \<open>re.compile("a+b", re.DOTALL)\<close>
  (flags 48) does not match the text \<open>a+b\<close>, its pattern string equals that text, and
  \<open>fail_reason\<close> carries no hint.
\<close>

theorem escape_warning_counterexample:
  "re_pattern \<lparr>re_pattern = ''a+b'', re_flags = 48\<rparr>
     = stringify_exception (PyExc ValueError ''a+b'' [] [])
   \<and> \<not> re_search plain_lib \<lparr>re_pattern = ''a+b'', re_flags = 48\<rparr>
          (stringify_exception (PyExc ValueError ''a+b'' [] []))
   \<and> Matcher_matches plain_lib
        \<lparr>m_exception_type = None, m_match = Some \<lparr>re_pattern = ''a+b'', re_flags = 48\<rparr>,
         m_check = None, m_fail_reason = None, m_nested = True\<rparr>
        (PyExc ValueError ''a+b'' [] [])
      = (False,
         \<lparr>m_exception_type = None, m_match = Some \<lparr>re_pattern = ''a+b'', re_flags = 48\<rparr>,
          m_check = None,
          m_fail_reason = Some (''Regex pattern re.compile('' @ [CHR 0x27] @ ''a+b'' @ [CHR 0x27]
                                @ '', 48) did not match '' @ [CHR 0x27] @ ''a+b'' @ [CHR 0x27]),
          m_nested = True\<rparr>)"
  by (simp add: eval_defs)

section \<open>A lone exception and a group of one\<close>

lemma pair_single:
  "pair_expected chk [e] [(0, p)] (initial_pairing [p] [e])
   = (case chk p e of
        Inl err \<Rightarrow> Inl err
      | Inr res \<Rightarrow>
          if res = None
          then Inr \<lparr>st_results = [[Result res]], st_remaining_actual = [],
                    st_failed_expected = [], st_matches = [(0, 0)], st_res = Some res\<rparr>
          else Inr \<lparr>st_results = [[Result res]], st_remaining_actual = [0],
                    st_failed_expected = [0], st_matches = [], st_res = Some res\<rparr>)"
  by (simp add: initial_pairing_def ResultHolder_init_def set_result_def Let_def
           split: sum.split)

lemma check_exceptions_with_single:
  "expected_exceptions self = [p] \<Longrightarrow>
   check_exceptions_with chk lib self ev [e] fr
   = (case chk p e of
        Inl err \<Rightarrow> Inl err
      | Inr res \<Rightarrow> if res = None then Inr (True, fr) else Inr (False, res))"
  by (cases "chk p e")
     (simp_all add: check_exceptions_with_def pair_single Let_def del: pair_expected.simps)

lemma matches_with_unwrapped:
  "\<not> isinstance e BaseExceptionGroup \<Longrightarrow>
   matches_with chk lib (RaisesGroup [p] True fl me ck isb fr ne) (Some e)
   = (case chk p e of
        Inl err \<Rightarrow> Inl err
      | Inr res \<Rightarrow> if res = None then Inr (True, None) else Inr (False, res))"
  by (simp add: matches_with_def Let_def split: sum.split)

lemma matches_with_wrapped:
  assumes "isinstance g BaseExceptionGroup" "exceptions g = [e]"
    "\<not> isinstance e BaseExceptionGroup"
  shows "matches_with chk lib (RaisesGroup [p] False False None None isb fr ne) (Some g)
   = (case chk p e of
        Inl err \<Rightarrow> Inl err
      | Inr res \<Rightarrow> if res = None then Inr (True, None) else Inr (False, res))"
  using assms
  by (simp add: matches_with_def Let_def check_match_def check_check_def
        check_exceptions_with_single split: sum.split option.split)

lemma verify_expected_single:
  "verify_expected fl [P] isb = Inr (es, isb') \<Longrightarrow> \<exists>p. es = [p]"
  by (cases P) (auto split: if_splits option.splits)

text \<open>
  Claim C6. Let \<open>P\<close> be accepted by the constructor both with \<open>allow_unwrapped=True\<close> and
  with the defaults (so \<open>P\<close> is an exception type or a \<open>Matcher\<close>), let \<open>e\<close> be an exception
  that is not a group and \<open>g\<close> a group whose only member is \<open>e\<close>. Then
  \<open>RaisesGroup(P, allow_unwrapped=True).matches(e)\<close> returns \<open>True\<close> if and only if
  \<open>RaisesGroup(P).matches(g)\<close> returns \<open>True\<close>.
\<close>

theorem allow_unwrapped_equivalence:
  assumes "RaisesGroup_init lib P [] True False None None = Inr rg1"
    and "RaisesGroup_init lib P [] False False None None = Inr rg2"
    and "\<not> isinstance e BaseExceptionGroup"
    and "isinstance g BaseExceptionGroup"
    and "exceptions g = [e]"
  shows "(\<exists>r. RaisesGroup_matches lib rg1 (Some e) = Inr (True, r))
         \<longleftrightarrow> (\<exists>r. RaisesGroup_matches lib rg2 (Some g) = Inr (True, r))"
proof -
  from assms(1) obtain es isb where v: "verify_expected False [P] False = Inr (es, isb)"
    and rg1: "rg1 = RaisesGroup es True False None None isb None False"
    by (auto simp: RaisesGroup_init_def compile_match_def split: if_splits sum.splits
             simp del: verify_expected.simps)
  from assms(2) v have rg2: "rg2 = RaisesGroup es False False None None isb None False"
    by (auto simp: RaisesGroup_init_def compile_match_def split: if_splits sum.splits
             simp del: verify_expected.simps)
  from verify_expected_single [OF v] obtain p where es: "es = [p]" ..
  have l: "matches_with (check_expected lib) lib rg1 (Some e)
           = (case check_expected lib p e of
                Inl err \<Rightarrow> Inl err
              | Inr res \<Rightarrow> if res = None then Inr (True, None) else Inr (False, res))"
    unfolding rg1 es by (rule matches_with_unwrapped [OF assms(3)])
  have r: "matches_with (check_expected lib) lib rg2 (Some g)
           = (case check_expected lib p e of
                Inl err \<Rightarrow> Inl err
              | Inr res \<Rightarrow> if res = None then Inr (True, None) else Inr (False, res))"
    unfolding rg2 es by (rule matches_with_wrapped [OF assms(4,5,3)])
  have "(\<exists>r. RaisesGroup_matches lib rg1 (Some e) = Inr (True, r))
        \<longleftrightarrow> check_expected lib p e = Inr None"
    unfolding RaisesGroup_matches_def l by (auto split: sum.splits)
  moreover have "(\<exists>r. RaisesGroup_matches lib rg2 (Some g) = Inr (True, r))
        \<longleftrightarrow> check_expected lib p e = Inr None"
    unfolding RaisesGroup_matches_def r by (auto split: sum.splits)
  ultimately show ?thesis by simp
qed

theorem allow_unwrapped_equivalence_witness:
  "\<exists>r. RaisesGroup_matches plain_lib
         (RaisesGroup [EType ValueError] False False None None False None False)
         (Some (PyExc ExceptionGroup [] [] [PyExc ValueError ''x'' [] []]))
       = Inr (True, r)"
proof -
  have i1: "RaisesGroup_init plain_lib (ArgType ValueError) [] True False None None
            = Inr (RaisesGroup [EType ValueError] True False None None False None False)"
    by (simp add: RaisesGroup_init_def compile_match_def issubclass_def ValueError_def
          BaseException_def Exception_def)
  have i2: "RaisesGroup_init plain_lib (ArgType ValueError) [] False False None None
            = Inr (RaisesGroup [EType ValueError] False False None None False None False)"
    by (simp add: RaisesGroup_init_def compile_match_def issubclass_def ValueError_def
          BaseException_def Exception_def)
  have h1: "\<not> isinstance (PyExc ValueError ''x'' [] []) BaseExceptionGroup"
    by (simp add: eval_defs)
  have h2: "isinstance (PyExc ExceptionGroup [] [] [PyExc ValueError ''x'' [] []])
              BaseExceptionGroup"
    by (simp add: eval_defs)
  have h3: "exceptions (PyExc ExceptionGroup [] [] [PyExc ValueError ''x'' [] []])
            = [PyExc ValueError ''x'' [] []]"
    by simp
  have l: "\<exists>r. RaisesGroup_matches plain_lib
                (RaisesGroup [EType ValueError] True False None None False None False)
                (Some (PyExc ValueError ''x'' [] []))
              = Inr (True, r)"
    by (simp add: eval_defs)
  show ?thesis
    using allow_unwrapped_equivalence [OF i1 i2 h1 h2 h3] l by simp
qed

section \<open>What possible_match decides\<close>

lemma first_true_Inr:
  "(\<And>x. x \<in> set xs \<Longrightarrow> f x = Inr (g x)) \<Longrightarrow> first_true f xs = Inr (\<exists>x\<in>set xs. g x)"
  by (induction xs) auto

text \<open>
  What \<open>possible_match\<close> decides, in the words of its description: the rows from
  \<open>len(used)\<close> on can each be given a column of their own, outside \<open>used\<close>, whose cell
  is a match.
\<close>

definition assignment_from :: "cell list list \<Rightarrow> nat fset \<Rightarrow> bool" where
  "assignment_from results used =
     (\<exists>f. inj_on f {fcard used..<length results}
          \<and> (\<forall>r\<in>{fcard used..<length results}.
                f r < length (results ! r) \<and> results ! r ! f r = Result None \<and> f r |\<notin>| used))"

lemma assignment_step:
  assumes k: "fcard used < length results"
  shows "(\<exists>i<length (results ! fcard used).
            results ! fcard used ! i = Result None \<and> i |\<notin>| used
            \<and> assignment_from results (finsert i used))
         \<longleftrightarrow> assignment_from results used"
proof
  assume "\<exists>i<length (results ! fcard used).
            results ! fcard used ! i = Result None \<and> i |\<notin>| used
            \<and> assignment_from results (finsert i used)"
  then obtain i f where i: "i < length (results ! fcard used)"
      "results ! fcard used ! i = Result None" "i |\<notin>| used"
    and inj: "inj_on f {Suc (fcard used)..<length results}"
    and f: "\<forall>r\<in>{Suc (fcard used)..<length results}.
              f r < length (results ! r) \<and> results ! r ! f r = Result None
              \<and> f r |\<notin>| finsert i used"
    by (auto simp: assignment_from_def fcard_finsert_disjoint)
  let ?f = "f(fcard used := i)"
  have "inj_on ?f {fcard used..<length results}"
  proof (rule inj_onI)
    fix x y
    assume x: "x \<in> {fcard used..<length results}" and y: "y \<in> {fcard used..<length results}"
      and e: "?f x = ?f y"
    show "x = y"
    proof (cases "x = fcard used")
      case True
      show ?thesis
      proof (cases "y = fcard used")
        case True
        with \<open>x = fcard used\<close> show ?thesis by simp
      next
        case False
        with y have "y \<in> {Suc (fcard used)..<length results}" by auto
        with f have "f y \<noteq> i" by auto
        with e True False show ?thesis by simp
      qed
    next
      case False
      with x have x': "x \<in> {Suc (fcard used)..<length results}" by auto
      show ?thesis
      proof (cases "y = fcard used")
        case True
        from x' f have "f x \<noteq> i" by auto
        with e True False show ?thesis by simp
      next
        case yf: False
        with y have "y \<in> {Suc (fcard used)..<length results}" by auto
        with x' inj e False yf show ?thesis by (auto dest: inj_onD)
      qed
    qed
  qed
  moreover have "\<forall>r\<in>{fcard used..<length results}.
        ?f r < length (results ! r) \<and> results ! r ! ?f r = Result None \<and> ?f r |\<notin>| used"
  proof
    fix r assume r: "r \<in> {fcard used..<length results}"
    show "?f r < length (results ! r) \<and> results ! r ! ?f r = Result None \<and> ?f r |\<notin>| used"
    proof (cases "r = fcard used")
      case True
      with i show ?thesis by simp
    next
      case False
      with r have "r \<in> {Suc (fcard used)..<length results}" by auto
      with f False show ?thesis by auto
    qed
  qed
  ultimately show "assignment_from results used"
    unfolding assignment_from_def by blast
next
  assume "assignment_from results used"
  then obtain f where inj: "inj_on f {fcard used..<length results}"
    and f: "\<forall>r\<in>{fcard used..<length results}.
              f r < length (results ! r) \<and> results ! r ! f r = Result None \<and> f r |\<notin>| used"
    unfolding assignment_from_def by blast
  from k have kin: "fcard used \<in> {fcard used..<length results}" by simp
  with f have i: "f (fcard used) < length (results ! fcard used)"
    "results ! fcard used ! f (fcard used) = Result None" "f (fcard used) |\<notin>| used"
    by auto
  have "inj_on f {Suc (fcard used)..<length results}"
    by (rule inj_on_subset [OF inj]) auto
  moreover have "\<forall>r\<in>{Suc (fcard used)..<length results}.
              f r < length (results ! r) \<and> results ! r ! f r = Result None
              \<and> f r |\<notin>| finsert (f (fcard used)) used"
  proof
    fix r assume r: "r \<in> {Suc (fcard used)..<length results}"
    then have r': "r \<in> {fcard used..<length results}" "r \<noteq> fcard used" by auto
    with inj kin have "f r \<noteq> f (fcard used)" by (auto dest: inj_onD)
    with f r' show "f r < length (results ! r) \<and> results ! r ! f r = Result None
              \<and> f r |\<notin>| finsert (f (fcard used)) used"
      by auto
  qed
  ultimately have "assignment_from results (finsert (f (fcard used)) used)"
    unfolding assignment_from_def using i(3) by (auto simp: fcard_finsert_disjoint)
  with i show "\<exists>i<length (results ! fcard used).
            results ! fcard used ! i = Result None \<and> i |\<notin>| used
            \<and> assignment_from results (finsert i used)"
    by blast
qed

lemma possible_match_assignment:
  "fcard used \<le> length results \<Longrightarrow>
   possible_match results used = Inr (assignment_from results used)"
proof (induction results used rule: possible_match.induct)
  case (1 results used)
  show ?case
  proof (cases "fcard used = length results")
    case True
    then have "assignment_from results used"
      by (simp add: assignment_from_def)
    with True show ?thesis
      by (simp add: possible_match.simps [of results used])
  next
    case False
    with 1(2) have k: "fcard used < length results" by simp
    let ?row = "results ! fcard used"
    let ?g = "\<lambda>(i, val). val = Result None \<and> i |\<notin>| used
                 \<and> assignment_from results (finsert i used)"
    have step: "(if val = Result None \<and> i |\<notin>| used
                 then possible_match results (finsert i used) else Inr False)
                = Inr (?g (i, val))"
      if "(i, val) \<in> set (enumerate 0 ?row)" for i val
    proof (cases "val = Result None \<and> i |\<notin>| used")
      case True
      then have "fcard (finsert i used) \<le> length results"
        using k by (simp add: fcard_finsert_disjoint)
      with "1.IH" [OF refl False _ that] True k show ?thesis
        by simp
    next
      case False
      then show ?thesis by auto
    qed
    have "possible_match results used
          = first_true (\<lambda>(i, val). if val = Result None \<and> i |\<notin>| used
                          then possible_match results (finsert i used) else Inr False)
              (enumerate 0 ?row)"
      using k False by (simp add: possible_match.simps [of results used])
    also have "\<dots> = Inr (\<exists>x\<in>set (enumerate 0 ?row). ?g x)"
      by (rule first_true_Inr) (use step in auto)
    also have "(\<exists>x\<in>set (enumerate 0 ?row). ?g x)
               \<longleftrightarrow> (\<exists>i<length ?row. ?row ! i = Result None \<and> i |\<notin>| used
                     \<and> assignment_from results (finsert i used))"
      by (auto simp: in_set_enumerate_eq)
    also have "\<dots> \<longleftrightarrow> assignment_from results used"
      by (rule assignment_step [OF k])
    finally show ?thesis .
  qed
qed

lemma possible_match_empty:
  "possible_match results {||} = Inr (assignment_from results {||})"
  by (rule possible_match_assignment) (simp add: fcard_fempty)


section \<open>The greedy pairing misses an assignment\<close>





section \<open>The pairing loop is the greedy procedure\<close>

text \<open>
  The indices one scan visits: the members of \<open>todo\<close> up to and including the first one
  the pattern accepts.
\<close>

fun attempts ::
  "(expected \<Rightarrow> pyexc \<Rightarrow> error + string option) \<Rightarrow> expected \<Rightarrow> pyexc list \<Rightarrow> nat list \<Rightarrow> nat list"
  where
  "attempts chk e acts [] = []"
| "attempts chk e acts (j # todo) =
     j # (if chk e (acts ! j) = Inr None then [] else attempts chk e acts todo)"

text \<open>
  The procedure as it is described: for each expected pattern in declared order, take the
  first of the remaining actual exceptions, in their original order, that satisfies it, and
  remove it from the pool. \<open>greedy_claims\<close> lists what each pattern takes, \<open>greedy_left\<close> is
  the pool at the end.
\<close>

fun greedy_claims ::
  "(expected \<Rightarrow> pyexc \<Rightarrow> bool) \<Rightarrow> pyexc list \<Rightarrow> expected list \<Rightarrow> nat list \<Rightarrow> nat option list"
  where
  "greedy_claims sat acts [] rem = []"
| "greedy_claims sat acts (p # ps) rem =
     (case find (\<lambda>j. sat p (acts ! j)) rem of
        None \<Rightarrow> None # greedy_claims sat acts ps rem
      | Some j \<Rightarrow> Some j # greedy_claims sat acts ps (remove1 j rem))"

fun greedy_left ::
  "(expected \<Rightarrow> pyexc \<Rightarrow> bool) \<Rightarrow> pyexc list \<Rightarrow> expected list \<Rightarrow> nat list \<Rightarrow> nat list"
  where
  "greedy_left sat acts [] rem = rem"
| "greedy_left sat acts (p # ps) rem =
     (case find (\<lambda>j. sat p (acts ! j)) rem of
        None \<Rightarrow> greedy_left sat acts ps rem
      | Some j \<Rightarrow> greedy_left sat acts ps (remove1 j rem))"

text \<open>
  The same procedure with the checks as they are, able to raise: a check that raises ends
  the procedure with that error, and no later pair is tried. \<open>first_claim\<close> is one scan of
  the pool, \<open>greedy\<close> gives what each pattern claimed and the pool that is left.
\<close>

fun first_claim ::
  "(expected \<Rightarrow> pyexc \<Rightarrow> error + string option) \<Rightarrow> expected \<Rightarrow> pyexc list \<Rightarrow> nat list
     \<Rightarrow> error + nat option" where
  "first_claim chk p acts [] = Inr None"
| "first_claim chk p acts (j # pool) =
     (case chk p (acts ! j) of
        Inl err \<Rightarrow> Inl err
      | Inr r \<Rightarrow> if r = None then Inr (Some j) else first_claim chk p acts pool)"

fun greedy ::
  "(expected \<Rightarrow> pyexc \<Rightarrow> error + string option) \<Rightarrow> pyexc list \<Rightarrow> expected list \<Rightarrow> nat list
     \<Rightarrow> error + (nat option list \<times> nat list)" where
  "greedy chk acts [] pool = Inr ([], pool)"
| "greedy chk acts (p # ps) pool =
     (case first_claim chk p acts pool of
        Inl err \<Rightarrow> Inl err
      | Inr c \<Rightarrow>
          (case greedy chk acts ps (case c of None \<Rightarrow> pool | Some j \<Rightarrow> remove1 j pool) of
             Inl err \<Rightarrow> Inl err
           | Inr (cs, left) \<Rightarrow> Inr (c # cs, left)))"

text \<open>
  The pool when pattern \<open>i\<close> starts its scan: what the patterns before it have left (they
  have not raised whenever the procedure as a whole returns).
\<close>

definition pool_before ::
  "(expected \<Rightarrow> pyexc \<Rightarrow> error + string option) \<Rightarrow> pyexc list \<Rightarrow> expected list \<Rightarrow> nat
     \<Rightarrow> nat list" where
  "pool_before chk acts es i =
     (case greedy chk acts (take i es) [0..<length acts] of
        Inl err \<Rightarrow> []
      | Inr (cs, left) \<Rightarrow> left)"

lemma scan_remaining_total:
  "\<forall>j\<in>set todo. \<exists>r. chk e (acts ! j) = Inr r \<Longrightarrow>
   \<exists>st'. scan_remaining chk e acts i todo st = Inr st'"
  by (induction todo arbitrary: st) (auto simp: Let_def)

lemma scan_remaining_components:
  "scan_remaining chk e acts i todo st = Inr st' \<Longrightarrow>
   st_remaining_actual st'
     = (case find (\<lambda>j. chk e (acts ! j) = Inr None) todo of
          None \<Rightarrow> st_remaining_actual st
        | Some j \<Rightarrow> remove1 j (st_remaining_actual st))
   \<and> st_matches st'
     = (case find (\<lambda>j. chk e (acts ! j) = Inr None) todo of
          None \<Rightarrow> st_matches st
        | Some j \<Rightarrow> st_matches st @ [(i, j)])
   \<and> st_failed_expected st'
     = (case find (\<lambda>j. chk e (acts ! j) = Inr None) todo of
          None \<Rightarrow> st_failed_expected st @ [i]
        | Some j \<Rightarrow> st_failed_expected st)
   \<and> st_results st'
     = fold (\<lambda>j t. set_result t i j (projr (chk e (acts ! j))))
         (attempts chk e acts todo) (st_results st)"
proof (induction todo arbitrary: st)
  case Nil
  then show ?case by auto
next
  case (Cons j todo)
  from Cons.prems obtain r where r: "chk e (acts ! j) = Inr r"
    by (cases "chk e (acts ! j)") auto
  show ?case
  proof (cases r)
    case None
    with Cons.prems r show ?thesis by (auto simp: Let_def)
  next
    case (Some reason)
    let ?st = "st\<lparr>st_results := set_result (st_results st) i j r, st_res := Some r\<rparr>"
    from Cons.prems r Some have "scan_remaining chk e acts i todo ?st = Inr st'"
      by (simp add: Let_def)
    from Cons.IH [OF this] r Some show ?thesis by (simp split: option.split)
  qed
qed

abbreviation sat_of ::
  "(expected \<Rightarrow> pyexc \<Rightarrow> error + string option) \<Rightarrow> expected \<Rightarrow> pyexc \<Rightarrow> bool" where
  "sat_of chk \<equiv> \<lambda>e a. chk e a = Inr None"

lemma pair_expected_total:
  assumes "\<forall>e\<in>set es. \<forall>a\<in>set acts. \<exists>r. chk e a = Inr r"
    and "set (st_remaining_actual st) \<subseteq> {..<length acts}"
  shows "\<exists>st'. pair_expected chk acts (enumerate k es) st = Inr st'"
  using assms
proof (induction es arbitrary: k st)
  case Nil
  show ?case by simp
next
  case (Cons e es)
  from Cons.prems have "\<forall>j\<in>set (st_remaining_actual st). \<exists>r. chk e (acts ! j) = Inr r"
    by (auto simp: subset_iff)
  from scan_remaining_total [of "st_remaining_actual st" chk e acts k st, OF this]
  obtain st1 where s: "scan_remaining chk e acts k (st_remaining_actual st) st = Inr st1"
    by blast
  from scan_remaining_components [OF s]
  have "set (st_remaining_actual st1) \<subseteq> set (st_remaining_actual st)"
    by (auto split: option.splits dest: set_remove1_subset [THEN subsetD])
  with Cons.prems have "set (st_remaining_actual st1) \<subseteq> {..<length acts}"
    by blast
  with Cons.prems Cons.IH [of st1 "Suc k"]
  obtain st' where "pair_expected chk acts (enumerate (Suc k) es) st1 = Inr st'"
    by auto
  with s show ?case by simp
qed

lemma pair_expected_components:
  "pair_expected chk acts (enumerate k es) st = Inr st' \<Longrightarrow>
   st_remaining_actual st' = greedy_left (sat_of chk) acts es (st_remaining_actual st)
   \<and> st_matches st'
     = st_matches st
       @ concat (map (\<lambda>(i, c). case c of None \<Rightarrow> [] | Some j \<Rightarrow> [(i, j)])
                   (zip [k..<k + length es]
                        (greedy_claims (sat_of chk) acts es (st_remaining_actual st))))
   \<and> st_failed_expected st'
     = st_failed_expected st
       @ concat (map (\<lambda>(i, c). case c of None \<Rightarrow> [i] | Some j \<Rightarrow> [])
                   (zip [k..<k + length es]
                        (greedy_claims (sat_of chk) acts es (st_remaining_actual st))))"
proof (induction es arbitrary: k st)
  case Nil
  then show ?case by simp
next
  case (Cons e es)
  from Cons.prems obtain st1 where
    s: "scan_remaining chk e acts k (st_remaining_actual st) st = Inr st1"
    and p: "pair_expected chk acts (enumerate (Suc k) es) st1 = Inr st'"
    by (auto split: sum.splits)
  note c = scan_remaining_components [OF s]
  note ih = Cons.IH [OF p]
  have u: "[k..<k + length (e # es)] = k # [Suc k..<Suc k + length es]"
    by (simp add: upt_rec)
  show ?case
  proof (cases "find (\<lambda>j. chk e (acts ! j) = Inr None) (st_remaining_actual st)")
    case None
    with c ih show ?thesis unfolding u by simp
  next
    case (Some j)
    with c ih show ?thesis unfolding u by simp
  qed
qed


lemma length_greedy_claims [simp]: "length (greedy_claims sat acts es rem) = length es"
  by (induction es arbitrary: rem) (auto split: option.splits)

lemma greedy_claims_sat:
  "i < length es \<Longrightarrow> greedy_claims sat acts es rem ! i = Some j \<Longrightarrow> sat (es ! i) (acts ! j)"
proof (induction es arbitrary: rem i)
  case Nil
  then show ?case by simp
next
  case (Cons e es)
  show ?case
  proof (cases i)
    case 0
    with Cons.prems show ?thesis
      by (auto split: option.splits simp: find_Some_iff)
  next
    case (Suc i')
    with Cons.prems Cons.IH [of i'] show ?thesis
      by (auto split: option.splits)
  qed
qed

lemma greedy_partition:
  "distinct rem \<Longrightarrow>
   distinct (greedy_left sat acts es rem)
   \<and> {j. Some j \<in> set (greedy_claims sat acts es rem)} \<union> set (greedy_left sat acts es rem)
       = set rem
   \<and> {j. Some j \<in> set (greedy_claims sat acts es rem)} \<inter> set (greedy_left sat acts es rem)
       = {}
   \<and> distinct (filter (\<lambda>c. c \<noteq> None) (greedy_claims sat acts es rem))"
proof (induction es arbitrary: rem)
  case Nil
  then show ?case by simp
next
  case (Cons e es)
  show ?case
  proof (cases "find (\<lambda>j. sat e (acts ! j)) rem")
    case None
    with Cons.IH [OF Cons.prems] show ?thesis by simp
  next
    case (Some j)
    then have j: "j \<in> set rem"
      by (auto simp: find_Some_iff)
    from Cons.prems have d: "distinct (remove1 j rem)" by simp
    from Cons.prems have s: "set (remove1 j rem) = set rem - {j}" by simp
    note ih = Cons.IH [OF d]
    from ih s have nj: "Some j \<notin> set (greedy_claims sat acts es (remove1 j rem))"
      "j \<notin> set (greedy_left sat acts es (remove1 j rem))"
      by auto
    from ih s j nj Some show ?thesis
      by auto
  qed
qed


lemma no_failed_iff:
  "length cs = length is \<Longrightarrow>
   concat (map (\<lambda>(i, c). case c of None \<Rightarrow> [i] | Some j \<Rightarrow> []) (zip is cs)) = []
   \<longleftrightarrow> None \<notin> set cs"
proof (induction cs arbitrary: "is")
  case Nil
  then show ?case by simp
next
  case (Cons c cs)
  then obtain i is' where "is = i # is'" by (cases "is") auto
  with Cons show ?case by (cases c) auto
qed

lemma greedy_success_iff_bijection:
  fixes sat acts es m
  defines "claims \<equiv> greedy_claims sat acts es [0..<m]"
    and "left \<equiv> greedy_left sat acts es [0..<m]"
  shows "(None \<notin> set claims \<and> left = [])
         \<longleftrightarrow> (\<exists>f. bij_betw f {..<length es} {..<m} \<and> (\<forall>i<length es. claims ! i = Some (f i)))"
proof
  note part = greedy_partition [of "[0..<m]" sat acts es, folded claims_def left_def, simplified]
  have len: "length claims = length es" by (simp add: claims_def)
  {
    assume a: "None \<notin> set claims \<and> left = []"
    let ?f = "\<lambda>i. the (claims ! i)"
    have some: "claims ! i = Some (?f i)" if "i < length es" for i
    proof -
      from that len have "claims ! i \<in> set claims" by simp
      with a have "claims ! i \<noteq> None" by metis
      then show ?thesis by simp
    qed
    from a have "\<forall>c\<in>set claims. c \<noteq> None" by metis
    then have "filter (\<lambda>c. c \<noteq> None) claims = claims"
      by (simp add: filter_id_conv del: not_None_eq)
    with part have dc: "distinct claims" by simp
    have "inj_on ?f {..<length es}"
    proof (rule inj_onI)
      fix x y assume xy: "x \<in> {..<length es}" "y \<in> {..<length es}" "?f x = ?f y"
      have "claims ! x = claims ! y"
        using some [of x] some [of y] xy by (metis lessThan_iff)
      moreover from xy len have "x < length claims" "y < length claims" by simp_all
      ultimately show "x = y" using dc by (simp add: nth_eq_iff_index_eq)
    qed
    moreover have "?f ` {..<length es} = {..<m}"
    proof -
      from part a have e: "{j. Some j \<in> set claims} = {..<m}"
        by (auto simp: atLeast0LessThan)
      have "?f ` {..<length es} = {j. Some j \<in> set claims}"
      proof (intro set_eqI iffI)
        fix j assume "j \<in> ?f ` {..<length es}"
        then obtain i where i: "i < length es" "j = ?f i" by auto
        with some [of i] len have "Some j = claims ! i" "claims ! i \<in> set claims"
          by simp_all
        then show "j \<in> {j. Some j \<in> set claims}" by simp
      next
        fix j assume "j \<in> {j. Some j \<in> set claims}"
        then obtain i where "i < length claims" "claims ! i = Some j"
          by (auto simp: in_set_conv_nth)
        with len show "j \<in> ?f ` {..<length es}"
          by (auto intro!: image_eqI [where x = i])
      qed
      with e show ?thesis by simp
    qed
    ultimately have "bij_betw ?f {..<length es} {..<m}"
      by (simp add: bij_betw_def)
    with some show "\<exists>f. bij_betw f {..<length es} {..<m}
                      \<and> (\<forall>i<length es. claims ! i = Some (f i))"
      by blast
  }
  {
    assume "\<exists>f. bij_betw f {..<length es} {..<m} \<and> (\<forall>i<length es. claims ! i = Some (f i))"
    then obtain f where bij: "bij_betw f {..<length es} {..<m}"
      and f: "\<forall>i<length es. claims ! i = Some (f i)"
      by blast
    have nn: "None \<notin> set claims"
    proof
      assume "None \<in> set claims"
      then obtain i where "i < length claims" "claims ! i = None"
        by (auto simp: in_set_conv_nth)
      with f len show False by simp
    qed
    have "{..<m} \<subseteq> {j. Some j \<in> set claims}"
    proof
      fix j assume "j \<in> {..<m}"
      with bij have "j \<in> f ` {..<length es}"
        by (simp add: bij_betw_def)
      then obtain i where i: "i < length es" "f i = j"
        by auto
      with f have "claims ! i = Some j" by simp
      moreover from i len have "claims ! i \<in> set claims" by simp
      ultimately show "j \<in> {j. Some j \<in> set claims}" by simp
    qed
    moreover from part have u: "{j. Some j \<in> set claims} \<union> set left = {0..<m}"
      and d: "{j. Some j \<in> set claims} \<inter> set left = {}"
      by simp_all
    ultimately have "x \<notin> set left" for x
    proof -
      assume sub: "{..<m} \<subseteq> {j. Some j \<in> set claims}"
      show "x \<notin> set left"
      proof
        assume x: "x \<in> set left"
        with u have "x \<in> {0..<m}" by blast
        then have "x \<in> {..<m}" by simp
        with sub have "x \<in> {j. Some j \<in> set claims}" by (rule subsetD)
        with x d show False by blast
      qed
    qed
    then have "left = []"
      by (cases left) auto
    with nn show "None \<notin> set claims \<and> left = []" by simp
  }
qed

lemma check_exceptions_with_success_iff:
  assumes p: "pair_expected chk acts (enumerate 0 (expected_exceptions self))
                (initial_pairing (expected_exceptions self) acts) = Inr st"
  shows "(\<exists>r. check_exceptions_with chk lib self ev acts fr = Inr (True, r))
         \<longleftrightarrow> st_remaining_actual st = [] \<and> st_failed_expected st = []"
proof (cases "st_remaining_actual st = [] \<and> st_failed_expected st = []")
  case True
  with p show ?thesis
    by (simp add: check_exceptions_with_def)
next
  case False
  have "check_exceptions_with chk lib self ev acts fr \<noteq> Inr (True, r)" for r
  proof
    assume eq: "check_exceptions_with chk lib self ev acts fr = Inr (True, r)"
    show False
    proof (cases "1 = length acts \<and> length acts = length (expected_exceptions self)")
      case True
      with eq p False show False
        by (simp add: check_exceptions_with_def split: if_splits option.splits)
    next
      case single: False
      with eq p False obtain results where
        "failure_report lib self acts results (st_remaining_actual st)
           (st_failed_expected st) (st_matches st) = Inr (True, r)"
        by (auto simp: check_exceptions_with_def split: sum.splits)
      with failure_report_is_failure
             [of lib self acts results "st_remaining_actual st" "st_failed_expected st"
                 "st_matches st"]
      show False by simp
    qed
  qed
  then have "\<not> (\<exists>r. check_exceptions_with chk lib self ev acts fr = Inr (True, r))"
    by blast
  with False show ?thesis by simp
qed

lemma initial_pairing_simps [simp]:
  "st_remaining_actual (initial_pairing es acts) = [0..<length acts]"
  "st_failed_expected (initial_pairing es acts) = []"
  "st_matches (initial_pairing es acts) = []"
  by (simp_all add: initial_pairing_def)

lemma scan_remaining_Inl:
  "(scan_remaining chk e acts i todo st = Inl err) = (first_claim chk e acts todo = Inl err)"
  by (induction todo arbitrary: st) (auto simp: Let_def split: sum.splits)

lemma first_claim_Inr:
  "first_claim chk e acts todo = Inr c \<Longrightarrow> c = find (\<lambda>j. chk e (acts ! j) = Inr None) todo"
  by (induction todo) (auto split: sum.splits if_splits)

lemma scan_remaining_Inr:
  "scan_remaining chk e acts i todo st = Inr st' \<Longrightarrow>
   first_claim chk e acts todo = Inr (find (\<lambda>j. chk e (acts ! j) = Inr None) todo)"
  by (induction todo arbitrary: st) (auto simp: Let_def split: sum.splits if_splits)

lemma pair_expected_greedy:
  "(case pair_expected chk acts (enumerate k es) st of
      Inl err \<Rightarrow> greedy chk acts es (st_remaining_actual st) = Inl err
    | Inr st' \<Rightarrow> greedy chk acts es (st_remaining_actual st)
                  = Inr (greedy_claims (sat_of chk) acts es (st_remaining_actual st),
                         greedy_left (sat_of chk) acts es (st_remaining_actual st)))"
proof (induction es arbitrary: k st)
  case Nil
  show ?case by simp
next
  case (Cons e es)
  show ?case
  proof (cases "scan_remaining chk e acts k (st_remaining_actual st) st")
    case (Inl err)
    then show ?thesis by (simp add: scan_remaining_Inl [THEN iffD1])
  next
    case (Inr st1)
    note c = scan_remaining_components [OF Inr]
    note f = scan_remaining_Inr [OF Inr]
    from Cons.IH [where k = "Suc k" and st = st1] c f Inr show ?thesis
      by (cases "find (\<lambda>j. chk e (acts ! j) = Inr None) (st_remaining_actual st)";
          cases "pair_expected chk acts (enumerate (Suc k) es) st1") simp_all
  qed
qed

lemma greedy_Inr:
  assumes "greedy chk acts es pool = Inr (cs, left)"
  shows "cs = greedy_claims (sat_of chk) acts es pool"
    and "left = greedy_left (sat_of chk) acts es pool"
  using assms
proof (induction es arbitrary: pool cs left)
  case Nil
  { case 1 then show ?case by simp }
  { case 2 then show ?case by simp }
next
  case (Cons e es)
  { case 1
    then show ?case using Cons.IH(1)
      by (auto split: sum.splits option.splits dest: first_claim_Inr) }
  { case 2
    then show ?case using Cons.IH(2)
      by (auto split: sum.splits option.splits dest: first_claim_Inr) }
qed

lemma greedy_take:
  "greedy chk acts es pool = Inr (cs, left) \<Longrightarrow>
   \<exists>cs' left'. greedy chk acts (take i es) pool = Inr (cs', left')"
proof (induction es arbitrary: pool cs left i)
  case Nil
  then show ?case by simp
next
  case (Cons e es)
  show ?case
  proof (cases i)
    case 0
    then show ?thesis by simp
  next
    case (Suc i')
    from Cons.prems obtain c cs0 where
      c: "first_claim chk e acts pool = Inr c"
      and g: "greedy chk acts es (case c of None \<Rightarrow> pool | Some j \<Rightarrow> remove1 j pool)
                = Inr (cs0, left)"
      by (auto split: sum.splits)
    from Cons.IH [OF g, of i'] obtain cs' left' where
      "greedy chk acts (take i' es) (case c of None \<Rightarrow> pool | Some j \<Rightarrow> remove1 j pool)
         = Inr (cs', left')"
      by blast
    with c Suc show ?thesis by simp
  qed
qed

lemma pool_before_eq:
  "greedy chk acts es [0..<length acts] = Inr (cs, left) \<Longrightarrow>
   pool_before chk acts es i
     = greedy_left (sat_of chk) acts (take i es) [0..<length acts]"
  using greedy_take [of chk acts es "[0..<length acts]" cs left i]
  by (auto simp: pool_before_def dest: greedy_Inr(2))

lemma set_result_nth:
  "length (set_result t i j r) = length t"
  "k < length t \<Longrightarrow> length (set_result t i j r ! k) = length (t ! k)"
  "k < length t \<Longrightarrow> i' < length (t ! k) \<Longrightarrow>
   set_result t i j r ! k ! i' = (if i' = i \<and> k = j then Result r else t ! k ! i')"
  by (cases "k = j"; simp add: set_result_def)+

lemma fold_set_result:
  "length (fold (\<lambda>j t. set_result t i j (f j)) js t) = length t"
  "j < length t \<Longrightarrow> length (fold (\<lambda>j t. set_result t i j (f j)) js t ! j) = length (t ! j)"
  "j < length t \<Longrightarrow> i' < length (t ! j) \<Longrightarrow>
   fold (\<lambda>j t. set_result t i j (f j)) js t ! j ! i'
     = (if i' = i \<and> j \<in> set js then Result (f j) else t ! j ! i')"
proof (induction js arbitrary: t)
  case Nil
  { case 1 show ?case by simp }
  { case 2 show ?case by simp }
  { case 3 show ?case by simp }
next
  case (Cons a js)
  { case 1 show ?case by (simp add: Cons.IH(1) set_result_nth) }
  { case 2 then show ?case by (simp add: Cons.IH(2) set_result_nth) }
  { case 3 then show ?case by (auto simp: Cons.IH(3) set_result_nth) }
qed

lemma attempts_return:
  "scan_remaining chk e acts i todo st = Inr st' \<Longrightarrow> j \<in> set (attempts chk e acts todo) \<Longrightarrow>
   \<exists>r. chk e (acts ! j) = Inr r"
  by (induction todo arbitrary: st) (auto simp: Let_def split: sum.splits if_splits)

lemma scan_remaining_table:
  assumes "scan_remaining chk e acts i todo st = Inr st'"
  shows "length (st_results st') = length (st_results st)"
    and "j < length (st_results st) \<Longrightarrow>
         length (st_results st' ! j) = length (st_results st ! j)"
    and "j < length (st_results st) \<Longrightarrow> i' < length (st_results st ! j) \<Longrightarrow>
         st_results st' ! j ! i'
           = (if i' = i \<and> j \<in> set (attempts chk e acts todo)
              then Result (projr (chk e (acts ! j))) else st_results st ! j ! i')"
  using scan_remaining_components [OF assms]
  by (simp_all add: fold_set_result)

lemma greedy_left_Cons_scan:
  assumes "scan_remaining chk e acts k (st_remaining_actual st) st = Inr st1"
  shows "greedy_left (sat_of chk) acts (e # ps) (st_remaining_actual st)
           = greedy_left (sat_of chk) acts ps (st_remaining_actual st1)"
  using scan_remaining_components [OF assms]
  by (simp split: option.splits)

lemma pair_expected_table:
  assumes "pair_expected chk acts (enumerate k es) st = Inr st'"
  shows "length (st_results st') = length (st_results st)"
    and "j < length (st_results st) \<Longrightarrow>
         length (st_results st' ! j) = length (st_results st ! j)"
    and "j < length (st_results st) \<Longrightarrow> i < length (st_results st ! j) \<Longrightarrow>
         st_results st' ! j ! i
           = (if k \<le> i \<and> i < k + length es
                 \<and> j \<in> set (attempts chk (es ! (i - k)) acts
                              (greedy_left (sat_of chk) acts (take (i - k) es)
                                 (st_remaining_actual st)))
              then Result (projr (chk (es ! (i - k)) (acts ! j)))
              else st_results st ! j ! i)"
    and "k \<le> i \<Longrightarrow> i < k + length es \<Longrightarrow>
         j \<in> set (attempts chk (es ! (i - k)) acts
                    (greedy_left (sat_of chk) acts (take (i - k) es)
                       (st_remaining_actual st))) \<Longrightarrow>
         \<exists>r. chk (es ! (i - k)) (acts ! j) = Inr r"
  using assms
proof (induction es arbitrary: k st)
  case Nil
  { case 1 then show ?case by simp }
  { case 2 then show ?case by simp }
  { case 3 then show ?case by auto }
  { case 4 then show ?case by simp }
next
  case (Cons e es)
  { case 1
    then obtain st1 where
      s: "scan_remaining chk e acts k (st_remaining_actual st) st = Inr st1"
      and p: "pair_expected chk acts (enumerate (Suc k) es) st1 = Inr st'"
      by (auto split: sum.splits)
    from Cons.IH(1) [OF p] scan_remaining_table(1) [OF s] show ?case by simp }
  { case 2
    then obtain st1 where
      s: "scan_remaining chk e acts k (st_remaining_actual st) st = Inr st1"
      and p: "pair_expected chk acts (enumerate (Suc k) es) st1 = Inr st'"
      by (auto split: sum.splits)
    from 2 have j1: "j < length (st_results st1)"
      by (simp add: scan_remaining_table(1) [OF s])
    from Cons.IH(2) [OF j1 p] scan_remaining_table(2) [OF s] 2 show ?case by simp }
  { case 3
    then obtain st1 where
      s: "scan_remaining chk e acts k (st_remaining_actual st) st = Inr st1"
      and p: "pair_expected chk acts (enumerate (Suc k) es) st1 = Inr st'"
      by (auto split: sum.splits)
    from 3 have j1: "j < length (st_results st1)"
      by (simp add: scan_remaining_table(1) [OF s])
    from 3 have i1: "i < length (st_results st1 ! j)"
      by (simp add: scan_remaining_table(2) [OF s])
    note ih = Cons.IH(3) [OF j1 i1 p]
    note sc = scan_remaining_table(3) [OF s, of j i] 
    note gl = greedy_left_Cons_scan [OF s]
    consider "i < k" | "i = k" | "k < i" by linarith
    then show ?case
    proof cases
      case 1
      with ih sc 3 show ?thesis by simp
    next
      case 2
      with ih sc 3 show ?thesis by simp
    next
      case 3
      then obtain n where n: "i - k = Suc n" "i - Suc k = n"
        by (cases "i - k") auto
      from 3 ih sc \<open>j < length (st_results st)\<close> \<open>i < length (st_results st ! j)\<close> n gl
      show ?thesis by simp
    qed }
  { case 4
    then obtain st1 where
      s: "scan_remaining chk e acts k (st_remaining_actual st) st = Inr st1"
      and p: "pair_expected chk acts (enumerate (Suc k) es) st1 = Inr st'"
      by (auto split: sum.splits)
    note gl = greedy_left_Cons_scan [OF s]
    show ?case
    proof (cases "i = k")
      case True
      with 4 attempts_return [OF s, of j] show ?thesis by simp
    next
      case False
      with 4 obtain n where n: "i - k = Suc n" "i - Suc k = n"
        by (cases "i - k") auto
      from False 4 n gl Cons.IH(4) [OF _ _ _ p] show ?thesis by simp
    qed }
qed

lemma initial_pairing_table:
  "length (st_results (initial_pairing es acts)) = length acts"
  "j < length acts \<Longrightarrow> length (st_results (initial_pairing es acts) ! j) = length es"
  "j < length acts \<Longrightarrow> i < length es \<Longrightarrow>
   st_results (initial_pairing es acts) ! j ! i = NotChecked"
  by (simp_all add: initial_pairing_def ResultHolder_init_def)

lemma check_exceptions_raises:
  "pair_expected (check_expected lib) acts (enumerate 0 (expected_exceptions self))
     (initial_pairing (expected_exceptions self) acts) = Inl err \<Longrightarrow>
   RaisesGroup_check_exceptions lib self ev acts = Inl err"
  by (simp add: RaisesGroup_check_exceptions_def check_exceptions_with_def)

text \<open>
  Claim C1, for every tuple of expected patterns and every sequence of actual exceptions,
  whether the checks return or raise. Run the greedy procedure on them. If it ends with an
  error, the loop of \<open>_check_exceptions\<close> ends with the same error, and so does
  \<open>_check_exceptions\<close>. If it ends with the claims of the patterns and the pool that is
  left, then each claim is the first exception of the pool, in its original order, that the
  pattern accepts, and the loop ends with \<open>matches\<close>, \<open>failed_expected\<close> and
  \<open>remaining_actual\<close> holding exactly these claims, the patterns without a claim and the
  pool that is left. In the table, the cell of a pattern and an exception holds the result
  of their check if the scan of that pattern tried the exception, and is still unchecked
  otherwise. \<open>_check_exceptions\<close> returns \<open>True\<close> if and only if every pattern has a claim and
  the pool is empty, which holds if and only if the claims are a bijection from the expected
  patterns onto the actual exceptions, each pattern accepting the exception it claimed.

  One scan, from any state: it raises exactly when \<open>first_claim\<close> raises, with the same
  error; when it returns, it has written the result of every check it made into the column
  of its pattern, left every other cell as it was, and either paired the pattern with the
  first exception of its list that the pattern accepts, removing it from
  \<open>remaining_actual\<close>, or recorded the pattern in \<open>failed_expected\<close>.
\<close>

theorem greedy_pairing:
  "(case greedy (check_expected lib) acts (expected_exceptions self) [0..<length acts] of
      Inl err \<Rightarrow>
        pair_expected (check_expected lib) acts (enumerate 0 (expected_exceptions self))
          (initial_pairing (expected_exceptions self) acts) = Inl err
        \<and> RaisesGroup_check_exceptions lib self ev acts = Inl err
    | Inr (claims, left) \<Rightarrow>
        claims = greedy_claims (\<lambda>e a. check_expected lib e a = Inr None) acts
                   (expected_exceptions self) [0..<length acts]
        \<and> left = greedy_left (\<lambda>e a. check_expected lib e a = Inr None) acts
                   (expected_exceptions self) [0..<length acts]
        \<and> (\<exists>st. pair_expected (check_expected lib) acts (enumerate 0 (expected_exceptions self))
                   (initial_pairing (expected_exceptions self) acts) = Inr st
               \<and> st_matches st
                   = concat (map (\<lambda>(i, c). case c of None \<Rightarrow> [] | Some j \<Rightarrow> [(i, j)])
                       (zip [0..<length (expected_exceptions self)] claims))
               \<and> st_failed_expected st
                   = concat (map (\<lambda>(i, c). case c of None \<Rightarrow> [i] | Some j \<Rightarrow> [])
                       (zip [0..<length (expected_exceptions self)] claims))
               \<and> st_remaining_actual st = left
               \<and> (\<forall>i<length (expected_exceptions self). \<forall>j<length acts.
                     if j \<in> set (attempts (check_expected lib) (expected_exceptions self ! i) acts
                                   (pool_before (check_expected lib) acts
                                      (expected_exceptions self) i))
                     then \<exists>r. check_expected lib (expected_exceptions self ! i) (acts ! j) = Inr r
                              \<and> st_results st ! j ! i = Result r
                     else st_results st ! j ! i = NotChecked))
        \<and> ((\<exists>g'. RaisesGroup_check_exceptions lib self ev acts = Inr (True, g'))
              \<longleftrightarrow> None \<notin> set claims \<and> left = [])
        \<and> ((\<exists>g'. RaisesGroup_check_exceptions lib self ev acts = Inr (True, g'))
              \<longleftrightarrow> (\<exists>f. bij_betw f {..<length (expected_exceptions self)} {..<length acts}
                       \<and> (\<forall>i<length (expected_exceptions self).
                             claims ! i = Some (f i)
                             \<and> check_expected lib (expected_exceptions self ! i) (acts ! f i)
                                 = Inr None))))
   \<and> ((scan_remaining (check_expected lib) e acts i todo st0 = Inl err')
        = (first_claim (check_expected lib) e acts todo = Inl err'))
   \<and> (scan_remaining (check_expected lib) e acts i todo st0 = Inr st1 \<longrightarrow>
        first_claim (check_expected lib) e acts todo
          = Inr (find (\<lambda>j. check_expected lib e (acts ! j) = Inr None) todo)
        \<and> (\<forall>j<length (st_results st0). \<forall>i'<length (st_results st0 ! j).
              if i' = i \<and> j \<in> set (attempts (check_expected lib) e acts todo)
              then \<exists>r. check_expected lib e (acts ! j) = Inr r
                       \<and> st_results st1 ! j ! i' = Result r
              else st_results st1 ! j ! i' = st_results st0 ! j ! i')
        \<and> st_matches st1
            = (case find (\<lambda>j. check_expected lib e (acts ! j) = Inr None) todo of
                 None \<Rightarrow> st_matches st0
               | Some j \<Rightarrow> st_matches st0 @ [(i, j)])
        \<and> st_remaining_actual st1
            = (case find (\<lambda>j. check_expected lib e (acts ! j) = Inr None) todo of
                 None \<Rightarrow> st_remaining_actual st0
               | Some j \<Rightarrow> remove1 j (st_remaining_actual st0))
        \<and> st_failed_expected st1
            = (case find (\<lambda>j. check_expected lib e (acts ! j) = Inr None) todo of
                 None \<Rightarrow> st_failed_expected st0 @ [i]
               | Some j \<Rightarrow> st_failed_expected st0))"
  (is "?loop \<and> ?scanl \<and> ?scanr")
proof -
  let ?chk = "check_expected lib"
  let ?es = "expected_exceptions self"
  let ?sat = "\<lambda>e a. check_expected lib e a = Inr None"
  let ?init = "initial_pairing ?es acts"
  let ?claims = "greedy_claims ?sat acts ?es [0..<length acts]"
  let ?left = "greedy_left ?sat acts ?es [0..<length acts]"
  note pg = pair_expected_greedy [where chk = ?chk and acts = acts and k = 0 and es = ?es and st = ?init,
                                   simplified]
  have loop: ?loop
  proof (cases "greedy ?chk acts ?es [0..<length acts]")
    case (Inl err)
    with pg have "pair_expected ?chk acts (enumerate 0 ?es) ?init = Inl err"
      by (cases "pair_expected ?chk acts (enumerate 0 ?es) ?init") simp_all
    with Inl check_exceptions_raises [where lib = lib and acts = acts and self = self and err = err
                 and ev = ev] show ?thesis
      by simp
  next
    case (Inr res)
    with pg obtain st where st: "pair_expected ?chk acts (enumerate 0 ?es) ?init = Inr st"
      and res: "res = (?claims, ?left)"
      by (cases "pair_expected ?chk acts (enumerate 0 ?es) ?init") auto
    from pair_expected_components [OF st]
    have c: "st_remaining_actual st = ?left"
      "st_matches st = concat (map (\<lambda>(i, c). case c of None \<Rightarrow> [] | Some j \<Rightarrow> [(i, j)])
                         (zip [0..<length ?es] ?claims))"
      "st_failed_expected st = concat (map (\<lambda>(i, c). case c of None \<Rightarrow> [i] | Some j \<Rightarrow> [])
                         (zip [0..<length ?es] ?claims))"
      by simp_all
    have pool: "pool_before ?chk acts ?es i = greedy_left ?sat acts (take i ?es) [0..<length acts]"
      for i
      using Inr res by (intro pool_before_eq [where chk = ?chk and acts = acts and es = ?es and cs = ?claims
                       and left = ?left]) simp
    have t: "if j \<in> set (attempts ?chk (?es ! i) acts (pool_before ?chk acts ?es i))
             then \<exists>r. ?chk (?es ! i) (acts ! j) = Inr r \<and> st_results st ! j ! i = Result r
             else st_results st ! j ! i = NotChecked"
      if "i < length ?es" "j < length acts" for i j
    proof -
      from that have j: "j < length (st_results ?init)"
        and i: "i < length (st_results ?init ! j)"
        by (simp_all add: initial_pairing_table)
      note cell = pair_expected_table(3) [OF st j i, simplified]
      show ?thesis
      proof (cases "j \<in> set (attempts ?chk (?es ! i) acts (pool_before ?chk acts ?es i))")
        case True
        with that pair_expected_table(4) [OF st, where i = i and j = j] pool [of i]
        obtain r where "?chk (?es ! i) (acts ! j) = Inr r"
          by auto
        with True cell that pool [of i] show ?thesis by simp
      next
        case False
        with cell that pool [of i] show ?thesis
          by (simp add: initial_pairing_table)
      qed
    qed
    have v: "(\<exists>g'. RaisesGroup_check_exceptions lib self ev acts = Inr (True, g'))
             \<longleftrightarrow> st_failed_expected st = [] \<and> st_remaining_actual st = []"
    proof -
      have "(\<exists>g'. RaisesGroup_check_exceptions lib self ev acts = Inr (True, g'))
            \<longleftrightarrow> (\<exists>r. check_exceptions_with ?chk lib self ev acts
                        (rg_fail_reason self) = Inr (True, r))"
        by (auto simp: RaisesGroup_check_exceptions_def split: sum.splits)
      with check_exceptions_with_success_iff [OF st, of lib ev "rg_fail_reason self"]
      show ?thesis by auto
    qed
    have f: "st_failed_expected st = [] \<longleftrightarrow> None \<notin> set ?claims"
      unfolding c by (rule no_failed_iff) simp
    from v f c(1) have v': "(\<exists>g'. RaisesGroup_check_exceptions lib self ev acts = Inr (True, g'))
             \<longleftrightarrow> None \<notin> set ?claims \<and> ?left = []"
      by simp
    have b: "(None \<notin> set ?claims \<and> ?left = [])
             \<longleftrightarrow> (\<exists>f. bij_betw f {..<length ?es} {..<length acts}
                      \<and> (\<forall>i<length ?es. ?claims ! i = Some (f i)))"
      by (rule greedy_success_iff_bijection)
    have b': "(\<exists>f. bij_betw f {..<length ?es} {..<length acts}
                      \<and> (\<forall>i<length ?es. ?claims ! i = Some (f i)))
              \<longleftrightarrow> (\<exists>f. bij_betw f {..<length ?es} {..<length acts}
                      \<and> (\<forall>i<length ?es. ?claims ! i = Some (f i)
                            \<and> ?chk (?es ! i) (acts ! f i) = Inr None))"
      using greedy_claims_sat [of _ ?es ?sat acts "[0..<length acts]"] by blast
    from v' b b' have w: "(\<exists>g'. RaisesGroup_check_exceptions lib self ev acts = Inr (True, g'))
             \<longleftrightarrow> (\<exists>f. bij_betw f {..<length ?es} {..<length acts}
                      \<and> (\<forall>i<length ?es. ?claims ! i = Some (f i)
                            \<and> ?chk (?es ! i) (acts ! f i) = Inr None))"
      by simp
    from t have t': "\<forall>i<length ?es. \<forall>j<length acts.
             if j \<in> set (attempts ?chk (?es ! i) acts (pool_before ?chk acts ?es i))
             then \<exists>r. ?chk (?es ! i) (acts ! j) = Inr r \<and> st_results st ! j ! i = Result r
             else st_results st ! j ! i = NotChecked"
      by blast
    from st c t' have ex: "\<exists>st. pair_expected ?chk acts (enumerate 0 ?es) ?init = Inr st
               \<and> st_matches st
                   = concat (map (\<lambda>(i, c). case c of None \<Rightarrow> [] | Some j \<Rightarrow> [(i, j)])
                       (zip [0..<length ?es] ?claims))
               \<and> st_failed_expected st
                   = concat (map (\<lambda>(i, c). case c of None \<Rightarrow> [i] | Some j \<Rightarrow> [])
                       (zip [0..<length ?es] ?claims))
               \<and> st_remaining_actual st = ?left
               \<and> (\<forall>i<length ?es. \<forall>j<length acts.
                     if j \<in> set (attempts ?chk (?es ! i) acts (pool_before ?chk acts ?es i))
                     then \<exists>r. ?chk (?es ! i) (acts ! j) = Inr r
                              \<and> st_results st ! j ! i = Result r
                     else st_results st ! j ! i = NotChecked)"
      by blast
    show ?thesis
      unfolding Inr res sum.case prod.case
      using ex v' w by (intro conjI refl)
  qed
  have scanl: ?scanl
    by (rule scan_remaining_Inl)
  have scanr: ?scanr
  proof
    assume s: "scan_remaining ?chk e acts i todo st0 = Inr st1"
    note c = scan_remaining_components [OF s]
    have cells: "if i' = i \<and> j \<in> set (attempts ?chk e acts todo)
                 then \<exists>r. ?chk e (acts ! j) = Inr r \<and> st_results st1 ! j ! i' = Result r
                 else st_results st1 ! j ! i' = st_results st0 ! j ! i'"
      if "j < length (st_results st0)" "i' < length (st_results st0 ! j)" for j i'
    proof (cases "i' = i \<and> j \<in> set (attempts ?chk e acts todo)")
      case True
      with attempts_return [OF s, where j = j] obtain r where "?chk e (acts ! j) = Inr r"
        by blast
      with True scan_remaining_table(3) [OF s that] show ?thesis by simp
    next
      case False
      with scan_remaining_table(3) [OF s that] show ?thesis by auto
    qed
    then have cells': "\<forall>j<length (st_results st0). \<forall>i'<length (st_results st0 ! j).
              if i' = i \<and> j \<in> set (attempts ?chk e acts todo)
              then \<exists>r. ?chk e (acts ! j) = Inr r \<and> st_results st1 ! j ! i' = Result r
              else st_results st1 ! j ! i' = st_results st0 ! j ! i'"
      by blast
    from scan_remaining_Inr [OF s] cells' c
    show "first_claim ?chk e acts todo = Inr (find (\<lambda>j. ?chk e (acts ! j) = Inr None) todo)
        \<and> (\<forall>j<length (st_results st0). \<forall>i'<length (st_results st0 ! j).
              if i' = i \<and> j \<in> set (attempts ?chk e acts todo)
              then \<exists>r. ?chk e (acts ! j) = Inr r \<and> st_results st1 ! j ! i' = Result r
              else st_results st1 ! j ! i' = st_results st0 ! j ! i')
        \<and> st_matches st1
            = (case find (\<lambda>j. ?chk e (acts ! j) = Inr None) todo of
                 None \<Rightarrow> st_matches st0
               | Some j \<Rightarrow> st_matches st0 @ [(i, j)])
        \<and> st_remaining_actual st1
            = (case find (\<lambda>j. ?chk e (acts ! j) = Inr None) todo of
                 None \<Rightarrow> st_remaining_actual st0
               | Some j \<Rightarrow> remove1 j (st_remaining_actual st0))
        \<and> st_failed_expected st1
            = (case find (\<lambda>j. ?chk e (acts ! j) = Inr None) todo of
                 None \<Rightarrow> st_failed_expected st0 @ [i]
               | Some j \<Rightarrow> st_failed_expected st0)"
      by (intro conjI) blast+
  qed
  from loop scanl scanr show ?thesis
    by (intro conjI)
qed

text \<open>
  \<open>RaisesGroup(RaisesGroup(TypeError, ValueError), RaisesGroup(ValueError, ValueError))\<close>
  against a group of two groups, \<open>TypeError("x"), ValueError("y")\<close> and
  \<open>ValueError("a"), ValueError("b")\<close>. Each pattern claims the group at its own position on
  the first try, so two cells of the table are filled and two are never checked. The check
  of the first pattern against the second group is one of those two; it raises \<open>KeyError\<close>
  (claim C9), as a scan of the pool in the other order shows.
\<close>

theorem greedy_pairing_witness:
  "(\<exists>g'. RaisesGroup_check_exceptions plain_lib
           (RaisesGroup
              [EGroup (RaisesGroup [EType TypeError, EType ValueError]
                         False False None None False None True),
               EGroup (RaisesGroup [EType ValueError, EType ValueError]
                         False False None None False None True)]
              False False None None False None False)
           (PyExc ExceptionGroup [] []
              [PyExc ExceptionGroup [] []
                 [PyExc TypeError ''x'' [] [], PyExc ValueError ''y'' [] []],
               PyExc ExceptionGroup [] []
                 [PyExc ValueError ''a'' [] [], PyExc ValueError ''b'' [] []]])
           [PyExc ExceptionGroup [] []
              [PyExc TypeError ''x'' [] [], PyExc ValueError ''y'' [] []],
            PyExc ExceptionGroup [] []
              [PyExc ValueError ''a'' [] [], PyExc ValueError ''b'' [] []]]
         = Inr (True, g'))
   \<and> (\<exists>st. pair_expected (check_expected plain_lib)
              [PyExc ExceptionGroup [] []
                 [PyExc TypeError ''x'' [] [], PyExc ValueError ''y'' [] []],
               PyExc ExceptionGroup [] []
                 [PyExc ValueError ''a'' [] [], PyExc ValueError ''b'' [] []]]
              (enumerate 0
                 [EGroup (RaisesGroup [EType TypeError, EType ValueError]
                            False False None None False None True),
                  EGroup (RaisesGroup [EType ValueError, EType ValueError]
                            False False None None False None True)])
              (initial_pairing
                 [EGroup (RaisesGroup [EType TypeError, EType ValueError]
                            False False None None False None True),
                  EGroup (RaisesGroup [EType ValueError, EType ValueError]
                            False False None None False None True)]
                 [PyExc ExceptionGroup [] []
                    [PyExc TypeError ''x'' [] [], PyExc ValueError ''y'' [] []],
                  PyExc ExceptionGroup [] []
                    [PyExc ValueError ''a'' [] [], PyExc ValueError ''b'' [] []]])
            = Inr st
          \<and> st_matches st = [(0, 0), (1, 1)]
          \<and> st_failed_expected st = []
          \<and> st_remaining_actual st = []
          \<and> st_results st ! 0 ! 0 = Result None
          \<and> st_results st ! 1 ! 0 = NotChecked
          \<and> st_results st ! 0 ! 1 = NotChecked
          \<and> st_results st ! 1 ! 1 = Result None)
   \<and> (\<exists>st1. scan_remaining (check_expected plain_lib)
               (EGroup (RaisesGroup [EType TypeError, EType ValueError]
                          False False None None False None True))
               [PyExc ExceptionGroup [] []
                  [PyExc TypeError ''x'' [] [], PyExc ValueError ''y'' [] []],
                PyExc ExceptionGroup [] []
                  [PyExc ValueError ''a'' [] [], PyExc ValueError ''b'' [] []]]
               0 [0, 1]
               (initial_pairing
                  [EGroup (RaisesGroup [EType TypeError, EType ValueError]
                             False False None None False None True),
                   EGroup (RaisesGroup [EType ValueError, EType ValueError]
                             False False None None False None True)]
                  [PyExc ExceptionGroup [] []
                     [PyExc TypeError ''x'' [] [], PyExc ValueError ''y'' [] []],
                   PyExc ExceptionGroup [] []
                     [PyExc ValueError ''a'' [] [], PyExc ValueError ''b'' [] []]])
             = Inr st1
           \<and> st_matches st1 = [(0, 0)]
           \<and> st_remaining_actual st1 = [1]
           \<and> st_failed_expected st1 = []
           \<and> st_results st1 ! 0 ! 0 = Result None
           \<and> st_results st1 ! 1 ! 0 = NotChecked)
   \<and> scan_remaining (check_expected plain_lib)
         (EGroup (RaisesGroup [EType TypeError, EType ValueError]
                    False False None None False None True))
         [PyExc ExceptionGroup [] []
            [PyExc TypeError ''x'' [] [], PyExc ValueError ''y'' [] []],
          PyExc ExceptionGroup [] []
            [PyExc ValueError ''a'' [] [], PyExc ValueError ''b'' [] []]]
         0 [1, 0]
         (initial_pairing
            [EGroup (RaisesGroup [EType TypeError, EType ValueError]
                       False False None None False None True),
             EGroup (RaisesGroup [EType ValueError, EType ValueError]
                       False False None None False None True)]
            [PyExc ExceptionGroup [] []
               [PyExc TypeError ''x'' [] [], PyExc ValueError ''y'' [] []],
             PyExc ExceptionGroup [] []
               [PyExc ValueError ''a'' [] [], PyExc ValueError ''b'' [] []]])
       = Inl (KeyError 1)"
proof -
  let ?g0 = "EGroup (RaisesGroup [EType TypeError, EType ValueError]
                       False False None None False None True)"
  let ?g1 = "EGroup (RaisesGroup [EType ValueError, EType ValueError]
                       False False None None False None True)"
  let ?a0 = "PyExc ExceptionGroup [] []
               [PyExc TypeError ''x'' [] [], PyExc ValueError ''y'' [] []]"
  let ?a1 = "PyExc ExceptionGroup [] []
               [PyExc ValueError ''a'' [] [], PyExc ValueError ''b'' [] []]"
  let ?self = "RaisesGroup [?g0, ?g1] False False None None False None False"
  let ?chk = "check_expected plain_lib"
  have c00: "?chk ?g0 ?a0 = Inr None"
    by (simp add: eval_defs)
  have c11: "?chk ?g1 ?a1 = Inr None"
    by (simp add: eval_defs)
  have u: "[0..<2] = [0, Suc 0]"
    by (simp add: upt_rec)
  have G: "greedy ?chk [?a0, ?a1] (expected_exceptions ?self) [0..<length [?a0, ?a1]]
             = Inr ([Some 0, Some 1], [])"
    using c00 c11 by (simp add: u)
  have p0: "pool_before ?chk [?a0, ?a1] (expected_exceptions ?self) 0 = [0, 1]"
    by (simp add: pool_before_def u)
  have p1: "pool_before ?chk [?a0, ?a1] (expected_exceptions ?self) 1 = [1]"
    using c00 by (simp add: pool_before_def u)
  have t0: "attempts ?chk ?g0 [?a0, ?a1] [0, 1] = [0]"
    using c00 by simp
  have t1: "attempts ?chk ?g1 [?a0, ?a1] [1] = [1]"
    using c11 by simp
  note gp = greedy_pairing [where lib = plain_lib and self = ?self and acts = "[?a0, ?a1]"
                and ev = "PyExc ExceptionGroup [] [] [?a0, ?a1]", unfolded G sum.case prod.case]
  note ex = gp [THEN conjunct1, THEN conjunct2, THEN conjunct2, THEN conjunct1]
  note verdict = gp [THEN conjunct1, THEN conjunct2, THEN conjunct2, THEN conjunct2,
                     THEN conjunct1]
  from ex obtain st where all:
    "pair_expected ?chk [?a0, ?a1] (enumerate 0 (expected_exceptions ?self))
           (initial_pairing (expected_exceptions ?self) [?a0, ?a1]) = Inr st
     \<and> st_matches st = concat (map (\<lambda>(i, c). case c of None \<Rightarrow> [] | Some j \<Rightarrow> [(i, j)])
                       (zip [0..<length (expected_exceptions ?self)] [Some 0, Some 1]))
     \<and> st_failed_expected st = concat (map (\<lambda>(i, c). case c of None \<Rightarrow> [i] | Some j \<Rightarrow> [])
                       (zip [0..<length (expected_exceptions ?self)] [Some (0::nat), Some 1]))
     \<and> st_remaining_actual st = []
     \<and> (\<forall>i<length (expected_exceptions ?self). \<forall>j<length [?a0, ?a1].
              if j \<in> set (attempts ?chk (expected_exceptions ?self ! i) [?a0, ?a1]
                            (pool_before ?chk [?a0, ?a1] (expected_exceptions ?self) i))
              then \<exists>r. ?chk (expected_exceptions ?self ! i) ([?a0, ?a1] ! j) = Inr r
                       \<and> st_results st ! j ! i = Result r
              else st_results st ! j ! i = NotChecked)" ..
  note st = all [THEN conjunct1]
  note m = all [THEN conjunct2, THEN conjunct1]
  note f = all [THEN conjunct2, THEN conjunct2, THEN conjunct1]
  note r = all [THEN conjunct2, THEN conjunct2, THEN conjunct2, THEN conjunct1]
  note t = all [THEN conjunct2, THEN conjunct2, THEN conjunct2, THEN conjunct2]
  from verdict have v: "\<exists>g'. RaisesGroup_check_exceptions plain_lib ?self
                           (PyExc ExceptionGroup [] [] [?a0, ?a1]) [?a0, ?a1] = Inr (True, g')"
    by simp
  from t [rule_format, of 0 0] p0 t0 c00 have r00: "st_results st ! 0 ! 0 = Result None"
    by simp
  from t [rule_format, of 0 1] p0 t0 have r10: "st_results st ! 1 ! 0 = NotChecked"
    by simp
  from t [rule_format, of 1 0] p1 t1 have r01: "st_results st ! 0 ! 1 = NotChecked"
    by simp
  from t [rule_format, of 1 1] p1 t1 c11 have r11: "st_results st ! 1 ! 1 = Result None"
    by simp
  from m have m': "st_matches st = [(0, 0), (1, 1)]"
    by (simp add: u)
  from f have f': "st_failed_expected st = []"
    by (simp add: u)
  from st m' f' r r00 r10 r01 r11
  have "\<exists>st. pair_expected ?chk [?a0, ?a1] (enumerate 0 [?g0, ?g1])
               (initial_pairing [?g0, ?g1] [?a0, ?a1]) = Inr st
          \<and> st_matches st = [(0, 0), (1, 1)]
          \<and> st_failed_expected st = []
          \<and> st_remaining_actual st = []
          \<and> st_results st ! 0 ! 0 = Result None
          \<and> st_results st ! 1 ! 0 = NotChecked
          \<and> st_results st ! 0 ! 1 = NotChecked
          \<and> st_results st ! 1 ! 1 = Result None"
    by simp
  then have loop: "\<exists>st. pair_expected ?chk [?a0, ?a1] (enumerate 0 [?g0, ?g1])
               (initial_pairing [?g0, ?g1] [?a0, ?a1]) = Inr st
          \<and> st_matches st = [(0, 0), (1, 1)]
          \<and> st_failed_expected st = []
          \<and> st_remaining_actual st = []
          \<and> st_results st ! 0 ! 0 = Result None
          \<and> st_results st ! 1 ! 0 = NotChecked
          \<and> st_results st ! 0 ! 1 = NotChecked
          \<and> st_results st ! 1 ! 1 = Result None" .
  let ?init = "initial_pairing [?g0, ?g1] [?a0, ?a1]"
  have c01: "?chk ?g0 ?a1 = Inl (KeyError 1)"
    by (simp add: eval_defs possible_match_empty)
  have "\<exists>st1. scan_remaining ?chk ?g0 [?a0, ?a1] 0 [0, 1] ?init = Inr st1"
    using c00 by (simp add: Let_def)
  then obtain st1 where s1: "scan_remaining ?chk ?g0 [?a0, ?a1] 0 [0, 1] ?init = Inr st1" ..
  note sp = greedy_pairing [where lib = plain_lib and e = ?g0 and acts = "[?a0, ?a1]"
               and i = 0 and todo = "[0, 1]" and ?st0.0 = ?init and ?st1.0 = st1,
               THEN conjunct2, THEN conjunct2, rule_format, OF s1]
  have f1: "find (\<lambda>j. ?chk ?g0 ([?a0, ?a1] ! j) = Inr None) [0, 1] = Some 0"
    using c00 by simp
  have t1': "attempts ?chk ?g0 [?a0, ?a1] [0, 1] = [0]"
    using c00 by simp
  note cells = sp [THEN conjunct2, THEN conjunct1, rule_format]
  from cells [of 0 0] t1' c00 have s00: "st_results st1 ! 0 ! 0 = Result None"
    by (simp add: initial_pairing_def ResultHolder_init_def)
  from cells [of 1 0] t1' have s10: "st_results st1 ! 1 ! 0 = NotChecked"
    by (simp add: initial_pairing_def ResultHolder_init_def)
  from sp f1 have sm: "st_matches st1 = [(0, 0)]" "st_remaining_actual st1 = [1]"
    "st_failed_expected st1 = []"
    by (simp_all add: initial_pairing_def u)
  from s1 sm s00 s10 have scan: "\<exists>st1. scan_remaining ?chk ?g0 [?a0, ?a1] 0 [0, 1] ?init = Inr st1
           \<and> st_matches st1 = [(0, 0)]
           \<and> st_remaining_actual st1 = [1]
           \<and> st_failed_expected st1 = []
           \<and> st_results st1 ! 0 ! 0 = Result None
           \<and> st_results st1 ! 1 ! 0 = NotChecked"
    by blast
  have "first_claim ?chk ?g0 [?a0, ?a1] [1, 0] = Inl (KeyError 1)"
    using c01 by simp
  with greedy_pairing [where lib = plain_lib and e = ?g0 and acts = "[?a0, ?a1]"
               and i = 0 and todo = "[1, 0]" and ?st0.0 = ?init and err' = "KeyError 1",
               THEN conjunct2, THEN conjunct1]
  have raises: "scan_remaining ?chk ?g0 [?a0, ?a1] 0 [1, 0] ?init = Inl (KeyError 1)"
    by simp
  from v loop scan raises show ?thesis
    by (intro conjI)
qed

section \<open>possible_match only explains\<close>

lemma assignment_from_empty:
  "assignment_from results {||}
   \<longleftrightarrow> (\<exists>f. inj_on f {..<length results}
          \<and> (\<forall>r<length results. f r < length (results ! r) \<and> results ! r ! f r = Result None))"
  by (auto simp: assignment_from_def fcard_fempty atLeast0LessThan)

lemma check_exceptions_success_pairing:
  "(\<exists>r. check_exceptions_with chk lib self ev acts fr = Inr (True, r))
   \<longleftrightarrow> (\<exists>st. pair_expected chk acts (enumerate 0 (expected_exceptions self))
                 (initial_pairing (expected_exceptions self) acts) = Inr st
             \<and> st_remaining_actual st = [] \<and> st_failed_expected st = [])"
proof (cases "pair_expected chk acts (enumerate 0 (expected_exceptions self))
                 (initial_pairing (expected_exceptions self) acts)")
  case (Inl err)
  then show ?thesis by (simp add: check_exceptions_with_def)
next
  case (Inr st)
  from check_exceptions_with_success_iff [OF Inr, of lib ev fr] Inr show ?thesis
    by simp
qed

text \<open>
  Claim C3. \<open>possible_match\<close> on a result table returns \<open>True\<close> if and only if every row
  (actual exception) can be given a column (expected pattern) of its own whose cell is a
  match. Its only caller, the general failure report, returns \<open>False\<close> with a reason
  whatever \<open>possible_match\<close> answers; and \<open>_check_exceptions\<close> returns \<open>True\<close> if and only
  if the pairing loop ends with nothing remaining and nothing failed, a condition in which
  \<open>possible_match\<close> has no part.
\<close>

theorem possible_match_diagnostic_only:
  "possible_match results {||}
     = Inr (\<exists>f. inj_on f {..<length results}
              \<and> (\<forall>r<length results.
                    f r < length (results ! r) \<and> results ! r ! f r = Result None))
   \<and> (general_report lib self acts results rem failed matches sstr = Inr (b, reason) \<longrightarrow>
        \<not> b \<and> reason \<noteq> None)
   \<and> ((\<exists>g'. RaisesGroup_check_exceptions lib self ev acts = Inr (True, g'))
        \<longleftrightarrow> (\<exists>st. pair_expected (check_expected lib) acts
                       (enumerate 0 (expected_exceptions self))
                       (initial_pairing (expected_exceptions self) acts) = Inr st
                  \<and> st_remaining_actual st = [] \<and> st_failed_expected st = []))"
proof -
  have one: "possible_match results {||}
     = Inr (\<exists>f. inj_on f {..<length results}
              \<and> (\<forall>r<length results.
                    f r < length (results ! r) \<and> results ! r ! f r = Result None))"
    by (simp add: possible_match_empty assignment_from_empty)
  have two: "general_report lib self acts results rem failed matches sstr = Inr (b, reason)
             \<longrightarrow> \<not> b \<and> reason \<noteq> None"
    using general_report_is_failure [of lib self acts results rem failed matches sstr]
    by auto
  have "(\<exists>g'. RaisesGroup_check_exceptions lib self ev acts = Inr (True, g'))
        \<longleftrightarrow> (\<exists>r. check_exceptions_with (check_expected lib) lib self ev acts
                    (rg_fail_reason self) = Inr (True, r))"
    by (auto simp: RaisesGroup_check_exceptions_def split: sum.splits)
  then have three: "(\<exists>g'. RaisesGroup_check_exceptions lib self ev acts = Inr (True, g'))
        \<longleftrightarrow> (\<exists>st. pair_expected (check_expected lib) acts
                       (enumerate 0 (expected_exceptions self))
                       (initial_pairing (expected_exceptions self) acts) = Inr st
                  \<and> st_remaining_actual st = [] \<and> st_failed_expected st = [])"
    by (simp add: check_exceptions_success_pairing)
  from one two three show ?thesis
    by (intro conjI)
qed

theorem possible_match_diagnostic_only_witness:
  "possible_match [[Result None, Result None], [Result None, Result (Some ''y'')]] {||}
     = Inr True
   \<and> (\<exists>reason. general_report plain_lib
          (RaisesGroup [EType ValueError, EType ValueError]
             False False None None False None False)
          [PyExc ValueError ''a'' [] [], PyExc ValueError ''b'' [] []]
          [[Result None, Result None], [Result None, Result (Some ''y'')]]
          [1] [1] [(0, 0)] ''1 matched exception. '' = Inr (False, Some reason))"
proof -
  have e: "\<exists>b reason. general_report plain_lib
      (RaisesGroup [EType ValueError, EType ValueError] False False None None False None False)
      [PyExc ValueError ''a'' [] [], PyExc ValueError ''b'' [] []]
      [[Result None, Result None], [Result None, Result (Some ''y'')]]
      [1] [1] [(0, 0)] ''1 matched exception. '' = Inr (b, reason)"
    by (auto simp: general_report_def get_result_def Let_def possible_match_empty
          enumerate_eq_zip)
  have "inj_on (\<lambda>r::nat. if r = 0 then 1 else (0::nat)) {..<2}"
    by (auto simp: inj_on_def)
  then have a: "\<exists>f. inj_on f {..<length [[Result None, Result None],
                                           [Result None, Result (Some ''y'')]]}
            \<and> (\<forall>r<length [[Result None, Result None], [Result None, Result (Some ''y'')]].
                  f r < length ([[Result None, Result None],
                                 [Result None, Result (Some ''y'')]] ! r)
                  \<and> [[Result None, Result None], [Result None, Result (Some ''y'')]] ! r ! f r
                      = Result None)"
    by (intro exI [of _ "\<lambda>r::nat. if r = 0 then 1 else (0::nat)"])
       (auto simp: less_Suc_eq numeral_2_eq_2)
  from e obtain b reason where g: "general_report plain_lib
      (RaisesGroup [EType ValueError, EType ValueError] False False None None False None False)
      [PyExc ValueError ''a'' [] [], PyExc ValueError ''b'' [] []]
      [[Result None, Result None], [Result None, Result (Some ''y'')]]
      [1] [1] [(0, 0)] ''1 matched exception. '' = Inr (b, reason)"
    by blast
  from possible_match_diagnostic_only
         [of "[[Result None, Result None], [Result None, Result (Some ''y'')]]" plain_lib
             "RaisesGroup [EType ValueError, EType ValueError]
                False False None None False None False"
             "[PyExc ValueError ''a'' [] [], PyExc ValueError ''b'' [] []]"
             "[1]" "[1]" "[(0, 0)]" "''1 matched exception. ''" b reason]
       a g
  show ?thesis by auto
qed

section \<open>The report on a failed expected pattern\<close>

lemmas eval_defs_lib =
  RaisesGroup_matches_def matches_with_def check_exceptions_with_def failure_report_def
  general_report_def initial_pairing_def ResultHolder_init_def set_result_def get_result_def
  has_result_def check_match_def check_check_def check_raw_type_def isinstance_def
  issubclass_def BaseExceptionGroup_def ExceptionGroup_def ValueError_def TypeError_def
  enumerate_eq_zip Let_def

text \<open>
  Claim C9 at \<open>RaisesGroup(TypeError, ValueError)\<close> and a group of \<open>ValueError("a")\<close> and
  \<open>ValueError("b")\<close>, for any library. \<open>TypeError\<close> accepts neither exception, so its entry
  in the report has nothing to be annotated with. The loop for that entry reads the column
  of the last expected pattern instead, \<open>ValueError\<close>, which accepts both; the second one
  was paired with nothing, and looking it up in \<open>rev_matches\<close> raises \<open>KeyError\<close>. With the
  two patterns in the other order the failed pattern is the last one and the report is
  built.
\<close>

theorem failed_pattern_report_reads_last_column:
  "RaisesGroup_matches lib
     (RaisesGroup [EType TypeError, EType ValueError] False False None None False None False)
     (Some (PyExc ExceptionGroup [] []
              [PyExc ValueError ''a'' [] [], PyExc ValueError ''b'' [] []]))
   = Inl (KeyError 1)
   \<and> check_expected lib (EType TypeError) (PyExc ValueError ''a'' [] []) \<noteq> Inr None
   \<and> check_expected lib (EType TypeError) (PyExc ValueError ''b'' [] []) \<noteq> Inr None
   \<and> (\<exists>g'. RaisesGroup_matches lib
         (RaisesGroup [EType ValueError, EType TypeError] False False None None False None False)
         (Some (PyExc ExceptionGroup [] []
                  [PyExc ValueError ''a'' [] [], PyExc ValueError ''b'' [] []]))
       = Inr (False, g'))"
  by (simp add: eval_defs_lib possible_match_empty)

section \<open>Order of the patterns and of the exceptions\<close>

text \<open>A group-level \<open>check\<close> that looks at the first member of the group.\<close>

definition first_is_ValueError :: "pyexc \<Rightarrow> bool" where
  "first_is_ValueError g = (case exceptions g of [] \<Rightarrow> False | x # _ \<Rightarrow> isinstance x ValueError)"

text \<open>
  Every expected pattern is satisfied at exactly one index of \<open>rem\<close> and every index of
  \<open>rem\<close> satisfies some expected pattern.
\<close>

definition exactly_covered ::
  "(expected \<Rightarrow> pyexc \<Rightarrow> bool) \<Rightarrow> pyexc list \<Rightarrow> expected list \<Rightarrow> nat list \<Rightarrow> bool" where
  "exactly_covered sat acts es rem \<longleftrightarrow>
     (\<forall>p\<in>set es. card {j \<in> set rem. sat p (acts ! j)} = 1)
     \<and> (\<forall>j\<in>set rem. \<exists>p\<in>set es. sat p (acts ! j))"

lemma exactly_covered_step:
  assumes j0: "j0 \<in> set rem" and d: "distinct rem" and s: "sat e (acts ! j0)"
    and e: "e \<notin> set es"
    and ov: "\<forall>j\<in>set rem. \<forall>p\<in>set (e # es). \<forall>q\<in>set (e # es).
               sat p (acts ! j) \<and> sat q (acts ! j) \<longrightarrow> p = q"
  shows "exactly_covered sat acts (e # es) rem
         \<longleftrightarrow> exactly_covered sat acts es (remove1 j0 rem)"
proof -
  have sr: "set (remove1 j0 rem) = set rem - {j0}"
    using d by simp
  have nj: "\<not> sat p (acts ! j0)" if "p \<in> set es" for p
  proof
    assume "sat p (acts ! j0)"
    with ov j0 s that have "p = e" by auto
    with that e show False by simp
  qed
  have same: "{j \<in> set (remove1 j0 rem). sat p (acts ! j)} = {j \<in> set rem. sat p (acts ! j)}"
    if "p \<in> set es" for p
    using nj [OF that] sr by auto
  show ?thesis
  proof
    assume a: "exactly_covered sat acts (e # es) rem"
    then have "card {j \<in> set rem. sat e (acts ! j)} = 1"
      by (simp add: exactly_covered_def)
    then obtain x where x: "{j \<in> set rem. sat e (acts ! j)} = {x}"
      by (auto simp: card_1_singleton_iff)
    with j0 s have only: "{j \<in> set rem. sat e (acts ! j)} = {j0}"
      by auto
    have "\<exists>p\<in>set es. sat p (acts ! j)" if "j \<in> set (remove1 j0 rem)" for j
    proof -
      from that sr have j: "j \<in> set rem" "j \<noteq> j0" by auto
      with a obtain p where p: "p \<in> set (e # es)" "sat p (acts ! j)"
        by (auto simp: exactly_covered_def)
      from only j have "\<not> sat e (acts ! j)" by auto
      with p show ?thesis by auto
    qed
    moreover have "card {j \<in> set (remove1 j0 rem). sat p (acts ! j)} = 1" if "p \<in> set es" for p
    proof -
      from a that have "card {j \<in> set rem. sat p (acts ! j)} = 1"
        unfolding exactly_covered_def by simp
      then show ?thesis unfolding same [OF that] .
    qed
    ultimately show "exactly_covered sat acts es (remove1 j0 rem)"
      by (simp add: exactly_covered_def)
  next
    assume a: "exactly_covered sat acts es (remove1 j0 rem)"
    have "{j \<in> set rem. sat e (acts ! j)} = {j0}"
    proof (intro set_eqI iffI)
      fix j assume "j \<in> {j \<in> set rem. sat e (acts ! j)}"
      then have j: "j \<in> set rem" "sat e (acts ! j)" by auto
      show "j \<in> {j0}"
      proof (rule ccontr)
        assume "j \<notin> {j0}"
        with j sr have "j \<in> set (remove1 j0 rem)" by auto
        with a obtain p where p: "p \<in> set es" "sat p (acts ! j)"
          by (auto simp: exactly_covered_def)
        with ov j have "p = e" by auto
        with p e show False by simp
      qed
    next
      fix j assume "j \<in> {j0}"
      with j0 s show "j \<in> {j \<in> set rem. sat e (acts ! j)}" by simp
    qed
    then have c: "card {j \<in> set rem. sat e (acts ! j)} = 1" by simp
    have "card {j \<in> set rem. sat p (acts ! j)} = 1" if "p \<in> set es" for p
    proof -
      from a that have "card {j \<in> set (remove1 j0 rem). sat p (acts ! j)} = 1"
        unfolding exactly_covered_def by blast
      then show ?thesis unfolding same [OF that] .
    qed
    moreover have "\<exists>p\<in>set (e # es). sat p (acts ! j)" if "j \<in> set rem" for j
    proof (cases "j = j0")
      case True
      with s show ?thesis by auto
    next
      case False
      with that sr have "j \<in> set (remove1 j0 rem)" by auto
      with a show ?thesis by (auto simp: exactly_covered_def)
    qed
    ultimately show "exactly_covered sat acts (e # es) rem"
      using c by (simp add: exactly_covered_def)
  qed
qed

lemma greedy_disjoint:
  assumes "distinct rem" "distinct es"
    and "\<forall>j\<in>set rem. \<forall>p\<in>set es. \<forall>q\<in>set es.
           sat p (acts ! j) \<and> sat q (acts ! j) \<longrightarrow> p = q"
  shows "(None \<notin> set (greedy_claims sat acts es rem) \<and> greedy_left sat acts es rem = [])
         \<longleftrightarrow> exactly_covered sat acts es rem"
  using assms
proof (induction es arbitrary: rem)
  case Nil
  show ?case by (cases rem) (auto simp: exactly_covered_def)
next
  case (Cons e es)
  show ?case
  proof (cases "find (\<lambda>j. sat e (acts ! j)) rem")
    case None
    then have em: "{j \<in> set rem. sat e (acts ! j)} = {}"
      by (auto simp: find_None_iff)
    have "\<not> exactly_covered sat acts (e # es) rem"
    proof
      assume "exactly_covered sat acts (e # es) rem"
      then have "card {j \<in> set rem. sat e (acts ! j)} = 1"
        unfolding exactly_covered_def by simp
      then show False unfolding em by simp
    qed
    with None show ?thesis by simp
  next
    case (Some j0)
    then have j0: "j0 \<in> set rem" "sat e (acts ! j0)"
      by (auto simp: find_Some_iff)
    from Cons.prems have e: "e \<notin> set es" and de: "distinct es" by simp_all
    have d': "distinct (remove1 j0 rem)" using Cons.prems(1) by simp
    have ov': "\<forall>j\<in>set (remove1 j0 rem). \<forall>p\<in>set es. \<forall>q\<in>set es.
                 sat p (acts ! j) \<and> sat q (acts ! j) \<longrightarrow> p = q"
      using Cons.prems(3) Cons.prems(1) by auto
    from Cons.IH [OF d' de ov']
    have "(None \<notin> set (greedy_claims sat acts es (remove1 j0 rem))
           \<and> greedy_left sat acts es (remove1 j0 rem) = [])
          \<longleftrightarrow> exactly_covered sat acts es (remove1 j0 rem)" .
    also have "\<dots> \<longleftrightarrow> exactly_covered sat acts (e # es) rem"
      by (rule exactly_covered_step [OF j0(1) Cons.prems(1) j0(2) e Cons.prems(3), symmetric])
    finally show ?thesis
      using Some by simp
  qed
qed


text \<open>
  Every expected pattern is satisfied by exactly one actual exception and every actual
  exception satisfies some expected pattern. Both conditions count members, not positions.
\<close>

definition covered_once ::
  "(expected \<Rightarrow> pyexc \<Rightarrow> bool) \<Rightarrow> expected list \<Rightarrow> pyexc list \<Rightarrow> bool" where
  "covered_once sat es acts \<longleftrightarrow>
     (\<forall>p\<in>set es. length (filter (sat p) acts) = 1) \<and> (\<forall>a\<in>set acts. \<exists>p\<in>set es. sat p a)"

lemma exactly_covered_upt:
  "exactly_covered sat acts es [0..<length acts] \<longleftrightarrow> covered_once sat es acts"
proof -
  have "{j \<in> set [0..<length acts]. sat p (acts ! j)} = {i. i < length acts \<and> sat p (acts ! i)}"
    for p by auto
  then have "card {j \<in> set [0..<length acts]. sat p (acts ! j)} = length (filter (sat p) acts)"
    for p by (simp add: length_filter_conv_card)
  moreover have "(\<forall>j\<in>set [0..<length acts]. \<exists>p\<in>set es. sat p (acts ! j))
                 \<longleftrightarrow> (\<forall>a\<in>set acts. \<exists>p\<in>set es. sat p a)"
    by (auto simp: all_set_conv_all_nth)
  ultimately show ?thesis
    unfolding exactly_covered_def covered_once_def by simp
qed

lemma covered_once_permuted:
  assumes "mset es' = mset es" "mset acts' = mset acts"
  shows "covered_once sat es' acts' \<longleftrightarrow> covered_once sat es acts"
proof -
  from assms have s: "set es' = set es" "set acts' = set acts"
    by (auto dest: mset_eq_setD)
  have "length (filter P acts') = length (filter P acts)" for P
  proof -
    have "length (filter P xs) = size (filter_mset P (mset xs))" for xs :: "pyexc list"
      by (metis mset_filter size_mset)
    then show ?thesis by (simp only: assms(2))
  qed
  with s show ?thesis
    unfolding covered_once_def by simp
qed

lemma matches_with_True_iff:
  assumes g: "isinstance g BaseExceptionGroup"
  shows "(\<exists>r. matches_with chk lib self (Some g) = Inr (True, r))
         \<longleftrightarrow> fst (check_match lib (rg_match_expr self) g None)
             \<and> (\<exists>r. check_exceptions_with chk lib self g
                       (if flatten_subgroups self then unroll_exceptions (exceptions g)
                        else exceptions g) None = Inr (True, r))
             \<and> fst (check_check (rg_check self) g (rg_nested self) None)"
proof -
  define acts where "acts = (if flatten_subgroups self then unroll_exceptions (exceptions g)
                             else exceptions g)"
  obtain ok old where cm: "check_match lib (rg_match_expr self) g None = (ok, old)"
    by (cases "check_match lib (rg_match_expr self) g None")
  show ?thesis
  proof (cases ok)
    case False
    have "matches_with chk lib self (Some g) \<noteq> Inr (True, r)" for r
      using g cm False
      by (simp add: matches_with_def Let_def split: list.split expected.split option.split)
    with cm False show ?thesis by simp
  next
    case True
    with check_match_result [OF cm] have old: "old = None" by simp
    show ?thesis
    proof (cases "check_exceptions_with chk lib self g acts None")
      case (Inl err)
      with g cm True old show ?thesis
        by (simp add: matches_with_def Let_def acts_def [symmetric])
    next
      case (Inr pr)
      obtain paired ro where pr: "pr = (paired, ro)" by (cases pr)
      show ?thesis
      proof (cases paired)
        case p: True
        with Inr pr have "ro = None"
          by (auto dest: check_exceptions_with_True)
        with g cm True old Inr pr p show ?thesis
          by (cases "check_check (rg_check self) g (rg_nested self) None")
             (simp add: matches_with_def Let_def acts_def [symmetric])
      next
        case p: False
        have "matches_with chk lib self (Some g) \<noteq> Inr (True, r)" for r
          using g cm True old Inr pr p
          by (simp add: matches_with_def Let_def acts_def [symmetric]
                   split: option.split sum.split)
        with Inr pr p show ?thesis
          by (simp add: acts_def [symmetric])
      qed
    qed
  qed
qed

lemma unroll_exceptions_Cons:
  "unroll_exceptions (x # xs) = unroll_exceptions [x] @ unroll_exceptions xs"
  by (cases x) simp

lemma mset_unroll_exceptions:
  "mset (unroll_exceptions xs) = (\<Sum>x\<in>#mset xs. mset (unroll_exceptions [x]))"
proof (induction xs)
  case Nil
  show ?case by simp
next
  case (Cons x xs)
  have "mset (unroll_exceptions (x # xs))
        = mset (unroll_exceptions [x]) + mset (unroll_exceptions xs)"
    by (subst unroll_exceptions_Cons) simp
  with Cons show ?case by simp
qed

lemma unroll_exceptions_permuted:
  assumes "mset xs' = mset xs"
  shows "mset (unroll_exceptions xs') = mset (unroll_exceptions xs)"
  unfolding mset_unroll_exceptions [of xs'] mset_unroll_exceptions [of xs] assms ..

lemma check_raw_type_sat:
  "check_raw_type lib (Some t) a = None \<longleftrightarrow> isinstance a t"
  by (simp add: check_raw_type_def Let_def)

lemma check_match_same_text:
  assumes "stringify_exception e' = stringify_exception e" "exc_type e' = exc_type e"
  shows "check_match lib me e' fr = check_match lib me e fr"
  unfolding check_match_def isinstance_def assms ..

lemma types_pairing_iff:
  assumes es: "expected_exceptions self = map EType ts"
    and d: "distinct ts"
    and ov: "\<forall>a\<in>set acts. \<forall>t\<in>set ts. \<forall>u\<in>set ts. isinstance a t \<and> isinstance a u \<longrightarrow> t = u"
  shows "(\<exists>r. check_exceptions_with (check_expected lib) lib self ev acts fr = Inr (True, r))
         \<longleftrightarrow> covered_once (\<lambda>e a. check_expected lib e a = Inr None) (map EType ts) acts"
proof -
  let ?sat = "\<lambda>e a. check_expected lib e a = Inr None"
  let ?es = "map EType ts"
  have H: "\<forall>e\<in>set ?es. \<forall>a\<in>set acts. \<exists>r. check_expected lib e a = Inr r"
    by auto
  have "set (st_remaining_actual (initial_pairing ?es acts)) \<subseteq> {..<length acts}"
    by auto
  from pair_expected_total [OF H this, of 0]
  obtain st where st: "pair_expected (check_expected lib) acts (enumerate 0 ?es)
                         (initial_pairing ?es acts) = Inr st"
    by blast
  from pair_expected_components [OF st]
  have c: "st_remaining_actual st = greedy_left ?sat acts ?es [0..<length acts]"
    "st_failed_expected st = concat (map (\<lambda>(i, c). case c of None \<Rightarrow> [i] | Some j \<Rightarrow> [])
        (zip [0..<length ?es] (greedy_claims ?sat acts ?es [0..<length acts])))"
    by simp_all
  have f: "st_failed_expected st = []
           \<longleftrightarrow> None \<notin> set (greedy_claims ?sat acts ?es [0..<length acts])"
    unfolding c by (rule no_failed_iff) simp
  have de: "distinct ?es"
    using d by (simp add: distinct_map inj_on_def)
  have ov': "\<forall>j\<in>set [0..<length acts]. \<forall>p\<in>set ?es. \<forall>q\<in>set ?es.
               ?sat p (acts ! j) \<and> ?sat q (acts ! j) \<longrightarrow> p = q"
  proof (intro ballI impI)
    fix j p q
    assume j: "j \<in> set [0..<length acts]" and p: "p \<in> set ?es" and q: "q \<in> set ?es"
      and s: "?sat p (acts ! j) \<and> ?sat q (acts ! j)"
    from j have a: "acts ! j \<in> set acts" by simp
    from p q obtain t u where tu: "p = EType t" "q = EType u" "t \<in> set ts" "u \<in> set ts"
      by auto
    with s have "isinstance (acts ! j) t" "isinstance (acts ! j) u"
      by (simp_all add: check_raw_type_sat)
    with ov a tu show "p = q" by blast
  qed
  have "(\<exists>r. check_exceptions_with (check_expected lib) lib self ev acts fr = Inr (True, r))
        \<longleftrightarrow> st_remaining_actual st = [] \<and> st_failed_expected st = []"
    by (rule check_exceptions_with_success_iff) (simp add: es st)
  also have "\<dots> \<longleftrightarrow> None \<notin> set (greedy_claims ?sat acts ?es [0..<length acts])
                      \<and> greedy_left ?sat acts ?es [0..<length acts] = []"
    unfolding f c(1) by blast
  also have "\<dots> \<longleftrightarrow> exactly_covered ?sat acts ?es [0..<length acts]"
    by (rule greedy_disjoint [OF _ de ov']) simp
  also have "\<dots> \<longleftrightarrow> covered_once ?sat ?es acts"
    by (rule exactly_covered_upt)
  finally show ?thesis .
qed

lemma RaisesGroup_matches_True_iff:
  "(\<exists>r. RaisesGroup_matches lib self x = Inr (True, r))
   \<longleftrightarrow> (\<exists>r. matches_with (check_expected lib) lib self x = Inr (True, r))"
  by (cases "matches_with (check_expected lib) lib self x")
     (auto simp: RaisesGroup_matches_def)

text \<open>
  Claim C7, amended. Take a \<open>RaisesGroup\<close> whose expected patterns are bare exception types
  without duplicates, and an exception group such that none of the exceptions to be paired
  (its members, or its leaves when \<open>flatten_subgroups\<close> is set) is an instance of two of
  the expected types. Permute the expected types, and permute the members of the group,
  keeping its class, message and notes; let the group-level \<open>check\<close>, if there is one,
  answer alike on both groups. Then \<open>matches\<close> returns \<open>True\<close> for the one arrangement if and
  only if it returns \<open>True\<close> for the other.
\<close>

theorem type_patterns_order_independent:
  assumes perm_ts: "mset ts' = mset ts"
    and perm_xs: "mset xs' = mset xs"
    and d: "distinct ts"
    and grp: "issubclass c BaseExceptionGroup"
    and ov: "\<forall>a\<in>set (if fl then unroll_exceptions xs else xs). \<forall>t\<in>set ts. \<forall>u\<in>set ts.
               isinstance a t \<and> isinstance a u \<longrightarrow> t = u"
    and chk: "\<forall>fn. ck = Some fn \<longrightarrow>
               check_call fn (PyExc c msg notes xs') = check_call fn (PyExc c msg notes xs)"
  shows "(\<exists>r. RaisesGroup_matches lib (RaisesGroup (map EType ts) aw fl me ck isb fr ne)
               (Some (PyExc c msg notes xs)) = Inr (True, r))
         \<longleftrightarrow> (\<exists>r. RaisesGroup_matches lib (RaisesGroup (map EType ts') aw' fl me ck isb' fr' ne)
                     (Some (PyExc c msg notes xs')) = Inr (True, r))"
proof -
  let ?self = "RaisesGroup (map EType ts) aw fl me ck isb fr ne"
  let ?self' = "RaisesGroup (map EType ts') aw' fl me ck isb' fr' ne"
  let ?g = "PyExc c msg notes xs"
  let ?g' = "PyExc c msg notes xs'"
  let ?acts = "if fl then unroll_exceptions xs else xs"
  let ?acts' = "if fl then unroll_exceptions xs' else xs'"
  let ?sat = "\<lambda>e a. check_expected lib e a = Inr None"
  have g: "isinstance ?g BaseExceptionGroup" "isinstance ?g' BaseExceptionGroup"
    using grp by (simp_all add: isinstance_def)
  have cm: "check_match lib me ?g' None = check_match lib me ?g None"
    by (rule check_match_same_text) (simp_all add: stringify_exception_def)
  have cc: "fst (check_check ck ?g' ne None) = fst (check_check ck ?g ne None)"
    using chk by (cases ck) (simp_all add: check_check_def)
  have pa: "mset ?acts' = mset ?acts"
    using perm_xs unroll_exceptions_permuted [OF perm_xs] by (cases fl) simp_all
  then have sa: "set ?acts' = set ?acts"
    by (rule mset_eq_setD)
  from perm_ts have st: "set ts' = set ts"
    by (rule mset_eq_setD)
  from perm_ts d have d': "distinct ts'"
    by (metis mset_eq_imp_distinct_iff)
  have ov': "\<forall>a\<in>set ?acts'. \<forall>t\<in>set ts'. \<forall>u\<in>set ts'.
               isinstance a t \<and> isinstance a u \<longrightarrow> t = u"
    unfolding sa st by (rule ov)
  have pe: "mset (map EType ts') = mset (map EType ts)"
    using perm_ts by (metis mset_map)
  have p1: "(\<exists>r. check_exceptions_with (check_expected lib) lib ?self ?g ?acts None
                   = Inr (True, r))
            \<longleftrightarrow> covered_once ?sat (map EType ts) ?acts"
    by (rule types_pairing_iff [OF _ d ov]) simp
  have p2: "(\<exists>r. check_exceptions_with (check_expected lib) lib ?self' ?g' ?acts' None
                   = Inr (True, r))
            \<longleftrightarrow> covered_once ?sat (map EType ts') ?acts'"
    by (rule types_pairing_iff [OF _ d' ov']) simp
  have p: "(\<exists>r. check_exceptions_with (check_expected lib) lib ?self' ?g' ?acts' None
                   = Inr (True, r))
           \<longleftrightarrow> (\<exists>r. check_exceptions_with (check_expected lib) lib ?self ?g ?acts None
                   = Inr (True, r))"
    unfolding p1 p2 by (rule covered_once_permuted [OF pe pa])
  have m1: "(\<exists>r. RaisesGroup_matches lib ?self (Some ?g) = Inr (True, r))
            \<longleftrightarrow> (\<exists>r. matches_with (check_expected lib) lib ?self (Some ?g) = Inr (True, r))"
    by (rule RaisesGroup_matches_True_iff)
  have m2: "(\<exists>r. RaisesGroup_matches lib ?self' (Some ?g') = Inr (True, r))
            \<longleftrightarrow> (\<exists>r. matches_with (check_expected lib) lib ?self' (Some ?g') = Inr (True, r))"
    by (rule RaisesGroup_matches_True_iff)
  have L: "(\<exists>r. RaisesGroup_matches lib ?self (Some ?g) = Inr (True, r))
           \<longleftrightarrow> fst (check_match lib me ?g None)
               \<and> (\<exists>r. check_exceptions_with (check_expected lib) lib ?self ?g ?acts None
                        = Inr (True, r))
               \<and> fst (check_check ck ?g ne None)"
    using matches_with_True_iff [OF g(1), of "check_expected lib" lib ?self]
    by (simp only: m1 raisesgroup.sel pyexc.sel)
  have R: "(\<exists>r. RaisesGroup_matches lib ?self' (Some ?g') = Inr (True, r))
           \<longleftrightarrow> fst (check_match lib me ?g' None)
               \<and> (\<exists>r. check_exceptions_with (check_expected lib) lib ?self' ?g' ?acts' None
                        = Inr (True, r))
               \<and> fst (check_check ck ?g' ne None)"
    using matches_with_True_iff [OF g(2), of "check_expected lib" lib ?self']
    by (simp only: m2 raisesgroup.sel pyexc.sel)
  show ?thesis
    by (simp only: L R cm cc p)
qed

theorem type_patterns_order_independent_witness:
  "\<exists>r. RaisesGroup_matches plain_lib
         (RaisesGroup (map EType [TypeError, ValueError]) False False None None False None False)
         (Some (PyExc ExceptionGroup [] []
                  [PyExc TypeError ''b'' [] [], PyExc ValueError ''a'' [] []]))
       = Inr (True, r)"
proof -
  have h1: "mset [TypeError, ValueError] = mset [ValueError, TypeError]"
    by simp
  have h2: "mset [PyExc TypeError ''b'' [] [], PyExc ValueError ''a'' [] []]
            = mset [PyExc ValueError ''a'' [] [], PyExc TypeError ''b'' [] []]"
    by simp
  have h3: "distinct [ValueError, TypeError]"
    by (simp add: ValueError_def TypeError_def)
  have h4: "issubclass ExceptionGroup BaseExceptionGroup"
    by (simp add: issubclass_def ExceptionGroup_def BaseExceptionGroup_def)
  have h5: "\<forall>a\<in>set (if False
                     then unroll_exceptions
                            [PyExc ValueError ''a'' [] [], PyExc TypeError ''b'' [] []]
                     else [PyExc ValueError ''a'' [] [], PyExc TypeError ''b'' [] []]).
              \<forall>t\<in>set [ValueError, TypeError]. \<forall>u\<in>set [ValueError, TypeError].
                isinstance a t \<and> isinstance a u \<longrightarrow> t = u"
    by (simp add: isinstance_def issubclass_def ValueError_def TypeError_def)
  have h6: "\<forall>fn. (None :: checkfn option) = Some fn \<longrightarrow>
              check_call fn (PyExc ExceptionGroup [] []
                               [PyExc TypeError ''b'' [] [], PyExc ValueError ''a'' [] []])
              = check_call fn (PyExc ExceptionGroup [] []
                               [PyExc ValueError ''a'' [] [], PyExc TypeError ''b'' [] []])"
    by simp
  have l: "\<exists>r. RaisesGroup_matches plain_lib
         (RaisesGroup (map EType [ValueError, TypeError]) False False None None False None False)
         (Some (PyExc ExceptionGroup [] []
                  [PyExc ValueError ''a'' [] [], PyExc TypeError ''b'' [] []]))
       = Inr (True, r)"
    by (simp add: eval_defs)
  show ?thesis
    using type_patterns_order_independent
            [OF h1 h2 h3 h4 h5 h6, of plain_lib False None False None False False False None]
          l
    by simp
qed

text \<open>
  The claim as stated fails in two ways. \<open>ValueError\<close> and \<open>TypeError\<close> are distinct and
  neither is a subclass of the other, yet an instance of a class derived from both takes
  either place: placed first in the group it is claimed by whichever type comes first, and
  only one order of the two types leaves a match for the \<open>ValueError\<close> that follows. And
  a group-level \<open>check\<close> may depend on the order of the members.
\<close>

theorem order_dependence_counterexample:
  "\<not> issubclass ValueError TypeError \<and> \<not> issubclass TypeError ValueError
   \<and> ValueError \<noteq> TypeError
   \<and> mset [EType TypeError, EType ValueError] = mset [EType ValueError, EType TypeError]
   \<and> map_sum id fst
        (RaisesGroup_matches plain_lib
           (RaisesGroup [EType ValueError, EType TypeError] False False None None False None False)
           (Some (PyExc ExceptionGroup [] []
              [PyExc (PyCls ''Both'' [''ValueError'', ''TypeError'', ''Exception'',
                                       ''BaseException'', ''object'']) ''x'' [] [],
               PyExc ValueError ''y'' [] []])))
      = Inr False
   \<and> map_sum id fst
        (RaisesGroup_matches plain_lib
           (RaisesGroup [EType TypeError, EType ValueError] False False None None False None False)
           (Some (PyExc ExceptionGroup [] []
              [PyExc (PyCls ''Both'' [''ValueError'', ''TypeError'', ''Exception'',
                                       ''BaseException'', ''object'']) ''x'' [] [],
               PyExc ValueError ''y'' [] []])))
      = Inr True
   \<and> mset [PyExc TypeError ''b'' [] [], PyExc ValueError ''a'' [] []]
       = mset [PyExc ValueError ''a'' [] [], PyExc TypeError ''b'' [] []]
   \<and> map_sum id fst
        (RaisesGroup_matches plain_lib
           (RaisesGroup [EType ValueError, EType TypeError] False False None
              (Some (CheckFn ''first_is_ValueError'' first_is_ValueError)) False None False)
           (Some (PyExc ExceptionGroup [] []
              [PyExc ValueError ''a'' [] [], PyExc TypeError ''b'' [] []])))
      = Inr True
   \<and> map_sum id fst
        (RaisesGroup_matches plain_lib
           (RaisesGroup [EType ValueError, EType TypeError] False False None
              (Some (CheckFn ''first_is_ValueError'' first_is_ValueError)) False None False)
           (Some (PyExc ExceptionGroup [] []
              [PyExc TypeError ''b'' [] [], PyExc ValueError ''a'' [] []])))
      = Inr False"
  by (simp add: eval_defs possible_match_empty first_is_ValueError_def)

end
